(* ===== verification/Go_Prelude.thy ===== *)
theory Go_Prelude
  imports Main "HOL-Library.AList" "HOL-Library.Char_ord" "HOL-Library.List_Lexorder"
    "HOL-Library.Multiset"
begin

text \<open>
  Shared vocabulary of the development: Go maps, nil-able maps and slices, Go strings and their
  order, and the generic lemmas on them that the component theories use.

  A Go map is an association list with distinct keys (\<open>gm_wf\<close>). The order of the list is the order
  in which one \<^verbatim>\<open>range\<close> loop over the map visits the keys. Go leaves that order open, so every
  result that must not depend on it is stated for all well-formed lists, or as an equality of the
  results on two lists with the same elements (\<open>gm_same\<close>).

  A map (or slice) that the code may leave nil is an \<open>option\<close>: \<open>None\<close> is nil. Reading a nil map,
  taking its length or ranging over it behaves as on an empty map, which \<open>nm_list\<close> expresses.

  Go strings are byte strings and \<^verbatim>\<open><\<close> compares them byte by byte: \<open>string\<close> with the library's
  lexicographic order on lists and its order on \<open>char\<close>.
\<close>

named_theorems gomap_simps \<open>lookups and lengths of Go maps after updates\<close>
named_theorems wf_intros \<open>well-formedness of maps and states\<close>

type_synonym ('k, 'v) gomap = "('k \<times> 'v) list"
type_synonym ('k, 'v) nmap = "('k \<times> 'v) list option"
type_synonym strmap = "(string \<times> string) list option"
type_synonym strslice = "string list option"

abbreviation gm_wf :: "('k, 'v) gomap \<Rightarrow> bool" where
  "gm_wf m \<equiv> distinct (map fst m)"

abbreviation gm_get :: "('k, 'v) gomap \<Rightarrow> 'k \<Rightarrow> 'v option" where
  "gm_get \<equiv> map_of"

abbreviation gm_put :: "'k \<Rightarrow> 'v \<Rightarrow> ('k, 'v) gomap \<Rightarrow> ('k, 'v) gomap" where
  "gm_put \<equiv> AList.update"

abbreviation gm_del :: "'k \<Rightarrow> ('k, 'v) gomap \<Rightarrow> ('k, 'v) gomap" where
  "gm_del \<equiv> AList.delete"

definition gm_same :: "('k, 'v) gomap \<Rightarrow> ('k, 'v) gomap \<Rightarrow> bool" where
  "gm_same m m' \<longleftrightarrow> mset m = mset m'"

fun nm_list :: "('k, 'v) nmap \<Rightarrow> ('k, 'v) gomap" where
  "nm_list None = []"
| "nm_list (Some m) = m"

abbreviation nm_get :: "('k, 'v) nmap \<Rightarrow> 'k \<Rightarrow> 'v option" where
  "nm_get m \<equiv> map_of (nm_list m)"

abbreviation nm_len :: "('k, 'v) nmap \<Rightarrow> nat" where
  "nm_len m \<equiv> length (nm_list m)"

abbreviation nm_wf :: "('k, 'v) nmap \<Rightarrow> bool" where
  "nm_wf m \<equiv> gm_wf (nm_list m)"

fun sl_list :: "'a list option \<Rightarrow> 'a list" where
  "sl_list None = []"
| "sl_list (Some xs) = xs"

text \<open>
  The copying loop \<^verbatim>\<open>for k, v := range src { dst[k] = v }\<close> into a fresh map, which the
  repository writes out at every copy of a label map.
\<close>

primrec range_copy :: "('k, 'v) gomap \<Rightarrow> ('k, 'v) gomap \<Rightarrow> ('k, 'v) gomap" where
  "range_copy [] dst = dst"
| "range_copy (kv # src) dst = range_copy src (gm_put (fst kv) (snd kv) dst)"

section \<open>Go maps\<close>

declare map_of_eq_Some_iff [simp del] Some_eq_map_of_iff [simp del]

lemma gm_get_put [gomap_simps]: "gm_get (gm_put k v m) = (gm_get m)(k \<mapsto> v)"
  by (simp add: update_conv' fun_eq_iff)

lemma gm_get_del [gomap_simps]: "gm_get (gm_del k m) = (gm_get m)(k := None)"
  by (simp add: delete_conv' fun_eq_iff)

lemma gm_wf_put [wf_intros, simp]: "gm_wf m \<Longrightarrow> gm_wf (gm_put k v m)"
  by (rule distinct_update)

lemma gm_wf_del [wf_intros, simp]: "gm_wf m \<Longrightarrow> gm_wf (gm_del k m)"
  by (rule distinct_delete)

lemma gm_get_iff: "gm_wf m \<Longrightarrow> gm_get m k = Some v \<longleftrightarrow> (k, v) \<in> set m"
  by (rule map_of_eq_Some_iff)

lemma gm_get_None_iff: "gm_get m k = None \<longleftrightarrow> k \<notin> fst ` set m"
  by (rule map_of_eq_None_iff)

lemma gm_put_new: "gm_get m k = None \<Longrightarrow> gm_put k v m = m @ [(k, v)]"
  by (induction m) (auto split: if_splits)

lemma range_copy_append: "gm_wf (dst @ src) \<Longrightarrow> range_copy src dst = dst @ src"
proof (induction src arbitrary: dst)
  case Nil
  then show ?case by simp
next
  case (Cons kv src)
  then have "gm_get dst (fst kv) = None"
    by (auto simp: map_of_eq_None_iff)
  then have "gm_put (fst kv) (snd kv) dst = dst @ [kv]"
    by (simp add: gm_put_new)
  with Cons show ?case by simp
qed

lemma range_copy_id [simp]: "gm_wf m \<Longrightarrow> range_copy m [] = m"
  by (simp add: range_copy_append)

lemma gm_wf_range_copy [wf_intros]: "gm_wf dst \<Longrightarrow> gm_wf (range_copy src dst)"
  by (induction src arbitrary: dst) auto

lemma gm_same_set: "gm_same m m' \<Longrightarrow> set m = set m'"
  by (auto simp: gm_same_def dest: mset_eq_setD)

lemma gm_same_wf:
  assumes "gm_same m m'"
  shows "gm_wf m \<longleftrightarrow> gm_wf m'"
proof -
  have "mset (map fst m) = mset (map fst m')"
    using assms by (simp add: gm_same_def)
  then show ?thesis by (rule mset_eq_imp_distinct_iff)
qed

lemma gm_same_get:
  assumes "gm_same m m'" and "gm_wf m"
  shows "gm_get m = gm_get m'"
proof -
  have "gm_wf m'" using assms gm_same_wf by blast
  with assms show ?thesis by (simp add: map_of_inject_set gm_same_set)
qed

lemma gm_same_iff_get:
  assumes "gm_wf m" and "gm_wf m'"
  shows "gm_same m m' \<longleftrightarrow> gm_get m = gm_get m'"
proof
  assume "gm_get m = gm_get m'"
  then have "set m = set m'"
    using assms by (simp add: map_of_inject_set)
  moreover have "distinct m" "distinct m'"
    using assms by (auto simp: distinct_map)
  ultimately show "gm_same m m'"
    by (simp add: gm_same_def set_eq_iff_mset_eq_distinct)
qed (simp add: gm_same_get assms)

lemma gm_submap_card:
  assumes "gm_wf a" and "gm_wf b" and "length a = length b"
    and "\<forall>(k, v) \<in> set a. gm_get b k = Some v"
  shows "gm_get a = gm_get b"
proof -
  have sub: "set a \<subseteq> set b" using assms(2,4) by (auto simp: gm_get_iff)
  have "card (set a) = length a" "card (set b) = length b"
    using assms(1,2) by (simp_all add: distinct_card distinct_map)
  with assms(3) sub have "set a = set b" by (simp add: card_subset_eq)
  with assms(1,2) show ?thesis by (simp add: map_of_inject_set)
qed

lemma gm_length_eq:
  assumes "gm_wf a" and "gm_wf b" and "gm_get a = gm_get b"
  shows "length a = length b"
  using assms gm_same_iff_get [OF assms(1,2)] unfolding gm_same_def by (metis size_mset)

section \<open>Sorting strings\<close>

lemma sort_remdups_set: "set xs = set ys \<Longrightarrow> sort (remdups xs) = sort (remdups (ys :: 'a::linorder list))"
  by (simp flip: sorted_list_of_set_sort_remdups)

lemma sort_distinct_eq:
  "distinct xs \<Longrightarrow> sort xs = sorted_list_of_set (set (xs :: 'a::linorder list))"
  by (simp add: sorted_list_of_set_sort_remdups distinct_remdups_id)

end
