(* ===== verification/Index_Interface.thy ===== *)
theory Index_Interface
  imports Go_Prelude
begin

text \<open>
  The contract of an in-memory index of the controller, as a locale. \<^verbatim>\<open>PodIndex\<close> and
  \<^verbatim>\<open>PolicyIndex\<close> both keep a Go map from a namespaced name to a private copy of an object and
  offer the same five operations. A request \<open>r\<close> to store an object names a key (\<open>key r\<close>) and is
  stored as a value (\<open>val r\<close>, the private copy). The laws say what a lookup returns after each
  operation and what the two whole-index reads return; the lemmas inside the locale are proved
  once and hold for both indexes through their interpretations.
\<close>

datatype ('k, 'r) index_op = OpUpsert 'r | OpDelete 'k

text \<open>A history of updates on an index, and on the abstract map it stands for.\<close>

primrec run_ops :: "('r \<Rightarrow> 's \<Rightarrow> 's) \<Rightarrow> ('k \<Rightarrow> 's \<Rightarrow> 's) \<Rightarrow> ('k, 'r) index_op list \<Rightarrow> 's \<Rightarrow> 's" where
  "run_ops ups del [] s = s"
| "run_ops ups del (x # xs) s =
     run_ops ups del xs (case x of OpUpsert r \<Rightarrow> ups r s | OpDelete k \<Rightarrow> del k s)"

primrec spec_ops ::
  "('r \<Rightarrow> 'k) \<Rightarrow> ('r \<Rightarrow> 'v) \<Rightarrow> ('k, 'r) index_op list \<Rightarrow> ('k \<rightharpoonup> 'v) \<Rightarrow> ('k \<rightharpoonup> 'v)" where
  "spec_ops key val [] m = m"
| "spec_ops key val (x # xs) m =
     spec_ops key val xs (case x of OpUpsert r \<Rightarrow> m(key r \<mapsto> val r) | OpDelete k \<Rightarrow> m(k := None))"

text \<open>The last operation of a history that concerns a key, if there is one.\<close>

definition last_op :: "('r \<Rightarrow> 'k) \<Rightarrow> 'k \<Rightarrow> ('k, 'r) index_op list \<Rightarrow> ('k, 'r) index_op option" where
  "last_op key k xs = find (\<lambda>x. case x of OpUpsert r \<Rightarrow> key r = k | OpDelete k' \<Rightarrow> k' = k) (rev xs)"

fun op_value :: "('r \<Rightarrow> 'v) \<Rightarrow> ('k, 'r) index_op \<Rightarrow> 'v option" where
  "op_value val (OpUpsert r) = Some (val r)"
| "op_value val (OpDelete k) = None"

definition ok_ops :: "('r \<Rightarrow> bool) \<Rightarrow> ('k, 'r) index_op list \<Rightarrow> bool" where
  "ok_ops ok xs \<longleftrightarrow> list_all (\<lambda>x. case x of OpUpsert r \<Rightarrow> ok r | OpDelete k \<Rightarrow> True) xs"

lemma spec_ops_append:
  "spec_ops key val (xs @ ys) m = spec_ops key val ys (spec_ops key val xs m)"
  by (induction xs arbitrary: m) auto

lemma spec_ops_last_op:
  "spec_ops key val xs m k =
     (case last_op key k xs of None \<Rightarrow> m k | Some x \<Rightarrow> op_value val x)"
proof (induction xs rule: rev_induct)
  case Nil
  then show ?case by (simp add: last_op_def)
next
  case (snoc x xs)
  then show ?case
    by (cases x) (auto simp: last_op_def spec_ops_append)
qed

locale object_index =
  fixes empty :: "'s"
    and upsert :: "'r \<Rightarrow> 's \<Rightarrow> 's"
    and delete :: "'k \<Rightarrow> 's \<Rightarrow> 's"
    and lookup :: "'s \<Rightarrow> 'k \<Rightarrow> 'v option"
    and all :: "'s \<Rightarrow> 'v list"
    and count :: "'s \<Rightarrow> nat"
    and key :: "'r \<Rightarrow> 'k"
    and val :: "'r \<Rightarrow> 'v"
    and ok :: "'r \<Rightarrow> bool"
    and inv :: "'s \<Rightarrow> bool"
  assumes inv_empty: "inv empty"
    and inv_upsert: "inv s \<Longrightarrow> ok r \<Longrightarrow> inv (upsert r s)"
    and inv_delete: "inv s \<Longrightarrow> inv (delete k s)"
    and lookup_empty: "lookup empty = Map.empty"
    and lookup_upsert: "inv s \<Longrightarrow> ok r \<Longrightarrow> lookup (upsert r s) = (lookup s)(key r \<mapsto> val r)"
    and lookup_delete: "inv s \<Longrightarrow> lookup (delete k s) = (lookup s)(k := None)"
    and set_all: "inv s \<Longrightarrow> set (all s) = ran (lookup s)"
    and count_eq: "inv s \<Longrightarrow> count s = card (dom (lookup s)) \<and> finite (dom (lookup s))"
begin

lemmas index_laws = inv_empty inv_upsert inv_delete lookup_empty lookup_upsert lookup_delete

lemma run_ops_step:
  "ok_ops ok xs \<Longrightarrow> inv s \<Longrightarrow>
     inv (run_ops upsert delete xs s) \<and>
     lookup (run_ops upsert delete xs s) = spec_ops key val xs (lookup s)"
proof (induction xs arbitrary: s)
  case Nil
  then show ?case by simp
next
  case (Cons x xs)
  let ?s' = "case x of OpUpsert r \<Rightarrow> upsert r s | OpDelete k \<Rightarrow> delete k s"
  have ok: "ok_ops ok xs" and okx: "\<And>r. x = OpUpsert r \<Longrightarrow> ok r"
    using Cons.prems(1) by (auto simp: ok_ops_def)
  have "inv ?s'" and "lookup ?s' =
      (case x of OpUpsert r \<Rightarrow> (lookup s)(key r \<mapsto> val r) | OpDelete k \<Rightarrow> (lookup s)(k := None))"
    using Cons.prems(2) okx by (auto simp: index_laws split: index_op.split)
  then show ?case using Cons.IH [OF ok, of ?s'] by simp
qed

lemma run_ops_refines:
  "ok_ops ok xs \<Longrightarrow> lookup (run_ops upsert delete xs empty) k =
     (case last_op key k xs of None \<Rightarrow> None | Some x \<Rightarrow> op_value val x)"
  using run_ops_step [of xs empty] by (simp add: index_laws spec_ops_last_op)

lemma run_ops_inv: "ok_ops ok xs \<Longrightarrow> inv (run_ops upsert delete xs empty)"
  using run_ops_step [of xs empty] by (simp add: index_laws)

lemma count_upsert:
  assumes "inv s" and "ok r"
  shows "count (upsert r s) = (if lookup s (key r) = None then Suc (count s) else count s)"
  using assms count_eq [of s] count_eq [of "upsert r s"]
  by (auto simp: index_laws insert_absorb domIff)

lemma count_delete:
  assumes "inv s"
  shows "count (delete k s) = (if lookup s k = None then count s else count s - 1)"
  using assms count_eq [of s] count_eq [of "delete k s"]
  by (auto simp: index_laws domIff)

end

end
