(* ===== verification/Pod_Index.thy ===== *)
theory Pod_Index
  imports Index_Interface
begin

text \<open>
  \<^verbatim>\<open>controller/internal/controller/pod_index.go\<close>: the index of running pods and the label matching
  used to decide which pods a policy applies to. \<open>types.NamespacedName\<close> is a pair of strings.
  Every operation of the source holds the index's mutex for its whole body, so each is one
  atomic function on the state. The invariant \<open>podindex_inv\<close> ties the reverse map \<open>ipToPod\<close> to
  \<open>pods\<close>; \<open>rev_complete\<close> is the further property that every pod can be found by its IP, which
  holds as long as no two indexed pods share an IP.
\<close>

datatype NamespacedName = NamespacedName (nnNamespace: string) (nnName: string)

record PodInfo =
  IP :: string
  Labels :: strmap
  Namespace :: string
  Name :: string

record PodIndex =
  pods :: "(NamespacedName, PodInfo) gomap"
  ipToPod :: "(string, NamespacedName) gomap"

section \<open>Operations\<close>

definition NewPodIndex :: PodIndex where
  "NewPodIndex = \<lparr>pods = [], ipToPod = []\<rparr>"

text \<open>The private copy that the index makes of a pod at every write and read.\<close>

definition copyPodInfo :: "PodInfo \<Rightarrow> PodInfo" where
  "copyPodInfo info =
     \<lparr>IP = IP info, Labels = Some (range_copy (nm_list (Labels info)) []),
      Namespace = Namespace info, Name = Name info\<rparr>"

definition PodIndex_Upsert :: "PodIndex \<Rightarrow> NamespacedName \<Rightarrow> PodInfo \<Rightarrow> PodIndex" where
  "PodIndex_Upsert pi namespacedName info =
     (let ips = (case gm_get (pods pi) namespacedName of
                   Some existing \<Rightarrow>
                     (if IP existing \<noteq> IP info then gm_del (IP existing) (ipToPod pi) else ipToPod pi)
                 | None \<Rightarrow> ipToPod pi)
      in pi\<lparr>pods := gm_put namespacedName (copyPodInfo info) (pods pi),
            ipToPod := gm_put (IP info) namespacedName ips\<rparr>)"

definition PodIndex_Delete :: "PodIndex \<Rightarrow> NamespacedName \<Rightarrow> PodIndex" where
  "PodIndex_Delete pi namespacedName =
     (case gm_get (pods pi) namespacedName of
        Some existing \<Rightarrow>
          pi\<lparr>ipToPod := gm_del (IP existing) (ipToPod pi), pods := gm_del namespacedName (pods pi)\<rparr>
      | None \<Rightarrow> pi)"

definition PodIndex_Get :: "PodIndex \<Rightarrow> NamespacedName \<Rightarrow> PodInfo option" where
  "PodIndex_Get pi namespacedName =
     (case gm_get (pods pi) namespacedName of
        Some info \<Rightarrow> Some (copyPodInfo info)
      | None \<Rightarrow> None)"

definition PodIndex_GetByIP :: "PodIndex \<Rightarrow> string \<Rightarrow> PodInfo option" where
  "PodIndex_GetByIP pi ip =
     (case gm_get (ipToPod pi) ip of
        Some namespacedName \<Rightarrow>
          (case gm_get (pods pi) namespacedName of
             Some info \<Rightarrow> Some (copyPodInfo info)
           | None \<Rightarrow> None)
      | None \<Rightarrow> None)"

definition PodIndex_GetAll :: "PodIndex \<Rightarrow> PodInfo list" where
  "PodIndex_GetAll pi = map (\<lambda>(_, info). copyPodInfo info) (pods pi)"

primrec LabelsContainAll_loop :: "strmap \<Rightarrow> (string, string) gomap \<Rightarrow> bool" where
  "LabelsContainAll_loop labels [] = True"
| "LabelsContainAll_loop labels (kv # selector) =
     (case nm_get labels (fst kv) of
        None \<Rightarrow> False
      | Some labelValue \<Rightarrow>
          (if labelValue \<noteq> snd kv then False else LabelsContainAll_loop labels selector))"

definition LabelsContainAll :: "strmap \<Rightarrow> strmap \<Rightarrow> bool" where
  "LabelsContainAll labels selector =
     (if nm_len selector = 0 then False else LabelsContainAll_loop labels (nm_list selector))"

definition PodIndex_GetPodsMatchingSelector :: "PodIndex \<Rightarrow> strmap \<Rightarrow> PodInfo list" where
  "PodIndex_GetPodsMatchingSelector pi selector =
     map (\<lambda>(_, info). copyPodInfo info)
       (filter (\<lambda>(_, info). LabelsContainAll (Labels info) selector) (pods pi))"

definition PodIndex_Size :: "PodIndex \<Rightarrow> nat" where
  "PodIndex_Size pi = length (pods pi)"

section \<open>Label matching\<close>

lemma LabelsContainAll_loop_iff:
  "LabelsContainAll_loop labels sel \<longleftrightarrow> (\<forall>(k, v) \<in> set sel. nm_get labels k = Some v)"
  by (induction sel) (auto split: option.splits)

lemma LabelsContainAll_set:
  "LabelsContainAll labels sel \<longleftrightarrow>
     nm_list sel \<noteq> [] \<and> (\<forall>(k, v) \<in> set (nm_list sel). nm_get labels k = Some v)"
  by (simp add: LabelsContainAll_def LabelsContainAll_loop_iff)

lemma LabelsContainAll_map_le:
  "nm_wf sel \<Longrightarrow>
     LabelsContainAll labels sel \<longleftrightarrow> nm_list sel \<noteq> [] \<and> nm_get sel \<subseteq>\<^sub>m nm_get labels"
  by (force simp: LabelsContainAll_set map_le_def dom_def gm_get_iff split: prod.splits)

text \<open>Neither answer nor iteration order leaks: only the two maps matter.\<close>

lemma LabelsContainAll_cong:
  assumes "nm_get labels = nm_get labels'" and "nm_wf sel" and "nm_wf sel'"
    and "nm_get sel = nm_get sel'"
  shows "LabelsContainAll labels sel \<longleftrightarrow> LabelsContainAll labels' sel'"
proof -
  have "set (nm_list sel) = set (nm_list sel')"
    using assms by (simp add: map_of_inject_set)
  moreover from this have "nm_list sel = [] \<longleftrightarrow> nm_list sel' = []"
    by (metis empty_set set_empty2)
  ultimately show ?thesis using assms(1) by (simp add: LabelsContainAll_set)
qed

lemma LabelsContainAll_nil [simp]: "nm_list sel = [] \<Longrightarrow> \<not> LabelsContainAll labels sel"
  by (simp add: LabelsContainAll_def)

section \<open>Invariant\<close>

definition podinfo_ok :: "PodInfo \<Rightarrow> bool" where
  "podinfo_ok info \<longleftrightarrow> nm_wf (Labels info)"

definition stored_ok :: "PodInfo \<Rightarrow> bool" where
  "stored_ok info \<longleftrightarrow> Labels info \<noteq> None \<and> nm_wf (Labels info)"

definition podindex_inv :: "PodIndex \<Rightarrow> bool" where
  "podindex_inv pi \<longleftrightarrow>
     gm_wf (pods pi) \<and> gm_wf (ipToPod pi) \<and>
     (\<forall>n info. gm_get (pods pi) n = Some info \<longrightarrow> stored_ok info) \<and>
     (\<forall>ip n. gm_get (ipToPod pi) ip = Some n \<longrightarrow>
        (\<exists>info. gm_get (pods pi) n = Some info \<and> IP info = ip))"

definition rev_complete :: "PodIndex \<Rightarrow> bool" where
  "rev_complete pi \<longleftrightarrow>
     (\<forall>n info. gm_get (pods pi) n = Some info \<longrightarrow> gm_get (ipToPod pi) (IP info) = Some n)"

definition ip_free :: "PodIndex \<Rightarrow> NamespacedName \<Rightarrow> string \<Rightarrow> bool" where
  "ip_free pi n ip \<longleftrightarrow> (\<forall>n' info. gm_get (pods pi) n' = Some info \<longrightarrow> IP info = ip \<longrightarrow> n' = n)"

lemma copyPodInfo_sel [simp]:
  "IP (copyPodInfo info) = IP info" "Namespace (copyPodInfo info) = Namespace info"
  "Name (copyPodInfo info) = Name info"
  "Labels (copyPodInfo info) = Some (range_copy (nm_list (Labels info)) [])"
  by (simp_all add: copyPodInfo_def)

lemma copyPodInfo_stored_ok [simp]: "stored_ok (copyPodInfo info)"
  by (simp add: stored_ok_def gm_wf_range_copy)

lemma copyPodInfo_id [simp]: "stored_ok info \<Longrightarrow> copyPodInfo info = info"
  by (cases info) (auto simp: stored_ok_def copyPodInfo_def)

lemma copyPodInfo_labels [simp]:
  "podinfo_ok info \<Longrightarrow> nm_list (Labels (copyPodInfo info)) = nm_list (Labels info)"
  by (simp add: podinfo_ok_def)

lemma podindex_inv_New [wf_intros, simp]: "podindex_inv NewPodIndex"
  by (simp add: podindex_inv_def NewPodIndex_def)

lemma pods_Upsert [simp]:
  "pods (PodIndex_Upsert pi n info) = gm_put n (copyPodInfo info) (pods pi)"
  by (simp add: PodIndex_Upsert_def Let_def)

lemma ipToPod_Upsert:
  "gm_get (ipToPod (PodIndex_Upsert pi n info)) =
     (case gm_get (pods pi) n of
        Some existing \<Rightarrow> (gm_get (ipToPod pi))(IP existing := None, IP info \<mapsto> n)
      | None \<Rightarrow> (gm_get (ipToPod pi))(IP info \<mapsto> n))"
  by (auto simp: PodIndex_Upsert_def Let_def gomap_simps fun_eq_iff split: option.split)

lemma podindex_inv_rev:
  "podindex_inv pi \<Longrightarrow> gm_get (ipToPod pi) ip = Some n \<Longrightarrow>
     \<exists>info. gm_get (pods pi) n = Some info \<and> IP info = ip"
  by (simp add: podindex_inv_def)

lemma podindex_inv_stored: "podindex_inv pi \<Longrightarrow> gm_get (pods pi) n = Some info \<Longrightarrow> stored_ok info"
  by (simp add: podindex_inv_def)

lemma podindex_inv_Upsert [wf_intros]:
  assumes inv: "podindex_inv pi"
  shows "podindex_inv (PodIndex_Upsert pi n info)"
proof -
  have wf: "gm_wf (ipToPod (PodIndex_Upsert pi n info))"
    using inv by (auto simp: PodIndex_Upsert_def podindex_inv_def Let_def split: option.split)
  have "\<exists>i. gm_get (pods (PodIndex_Upsert pi n info)) n' = Some i \<and> IP i = ip"
    if "gm_get (ipToPod (PodIndex_Upsert pi n info)) ip = Some n'" for ip n'
  proof (cases "n' = n")
    case True
    then have "ip = IP info"
      using that inv
      by (auto simp: ipToPod_Upsert dest: podindex_inv_rev split: option.splits if_splits)
    with True show ?thesis by (simp add: gomap_simps)
  next
    case False
    then have "gm_get (ipToPod pi) ip = Some n'"
      using that by (auto simp: ipToPod_Upsert split: option.splits if_splits)
    with False inv show ?thesis by (simp add: podindex_inv_def gomap_simps)
  qed
  with wf inv show ?thesis by (simp add: podindex_inv_def gomap_simps)
qed

lemma podindex_inv_Delete [wf_intros]:
  assumes inv: "podindex_inv pi"
  shows "podindex_inv (PodIndex_Delete pi n)"
proof (cases "gm_get (pods pi) n")
  case None
  with inv show ?thesis by (simp add: PodIndex_Delete_def)
next
  case (Some existing)
  have "n' \<noteq> n" if "gm_get (ipToPod pi) ip = Some n'" "ip \<noteq> IP existing" for ip n'
    using that Some inv by (auto dest: podindex_inv_rev)
  with Some inv show ?thesis
    by (auto simp: PodIndex_Delete_def podindex_inv_def gomap_simps)
qed

lemma pods_Delete: "gm_get (pods (PodIndex_Delete pi n)) = (gm_get (pods pi))(n := None)"
  by (auto simp: PodIndex_Delete_def gomap_simps fun_eq_iff split: option.split)

section \<open>Reads\<close>

lemma PodIndex_Get_eq: "podindex_inv pi \<Longrightarrow> PodIndex_Get pi n = gm_get (pods pi) n"
  by (auto simp: PodIndex_Get_def dest: podindex_inv_stored split: option.split)

lemma podindex_inv_elem: "podindex_inv pi \<Longrightarrow> (n, info) \<in> set (pods pi) \<Longrightarrow> stored_ok info"
  by (auto simp: podindex_inv_def gm_get_iff)

lemma PodIndex_GetAll_eq: "podindex_inv pi \<Longrightarrow> PodIndex_GetAll pi = map snd (pods pi)"
  by (auto simp: PodIndex_GetAll_def dest: podindex_inv_elem)

lemma PodIndex_Matching_eq:
  "podindex_inv pi \<Longrightarrow>
     PodIndex_GetPodsMatchingSelector pi sel =
       filter (\<lambda>info. LabelsContainAll (Labels info) sel) (PodIndex_GetAll pi)"
  by (auto simp: PodIndex_GetAll_eq PodIndex_GetPodsMatchingSelector_def filter_map comp_def
      case_prod_unfold dest: podindex_inv_elem intro!: map_cong)

lemma set_PodIndex_GetAll:
  "podindex_inv pi \<Longrightarrow> info \<in> set (PodIndex_GetAll pi) \<longleftrightarrow> (\<exists>n. gm_get (pods pi) n = Some info)"
  by (force simp: PodIndex_GetAll_eq podindex_inv_def gm_get_iff)

lemma rev_complete_New [simp]: "rev_complete NewPodIndex"
  by (simp add: rev_complete_def NewPodIndex_def)

lemma rev_completeD:
  "rev_complete pi \<Longrightarrow> gm_get (pods pi) n = Some i \<Longrightarrow> gm_get (ipToPod pi) (IP i) = Some n"
  by (simp add: rev_complete_def)

lemma rev_complete_unique:
  assumes "rev_complete pi" and "gm_get (pods pi) n = Some i" and "gm_get (pods pi) m = Some j"
    and "IP i = IP j"
  shows "n = m"
  using rev_completeD [OF assms(1,2)] rev_completeD [OF assms(1,3)] assms(4) by simp

lemma rev_complete_Upsert:
  assumes rc: "rev_complete pi" and free: "ip_free pi n (IP info)"
  shows "rev_complete (PodIndex_Upsert pi n info)"
  unfolding rev_complete_def
proof (intro allI impI)
  fix m i
  assume m: "gm_get (pods (PodIndex_Upsert pi n info)) m = Some i"
  show "gm_get (ipToPod (PodIndex_Upsert pi n info)) (IP i) = Some m"
  proof (cases "m = n")
    case True
    with m show ?thesis by (auto simp: ipToPod_Upsert gomap_simps split: option.split)
  next
    case False
    with m have i: "gm_get (pods pi) m = Some i" by (simp add: gomap_simps)
    moreover have "IP i \<noteq> IP info" using False i free by (auto simp: ip_free_def)
    moreover have "IP i \<noteq> IP j" if "gm_get (pods pi) n = Some j" for j
      using False rev_complete_unique [OF rc i that] by blast
    ultimately show ?thesis
      using rev_completeD [OF rc i] by (auto simp: ipToPod_Upsert split: option.split)
  qed
qed

lemma rev_complete_Delete:
  assumes rc: "rev_complete pi"
  shows "rev_complete (PodIndex_Delete pi n)"
proof (cases "gm_get (pods pi) n")
  case (Some j)
  have "IP i \<noteq> IP j" if "gm_get (pods pi) m = Some i" "m \<noteq> n" for m i
    using that Some rev_complete_unique [OF rc] by blast
  with Some rev_completeD [OF rc] show ?thesis
    by (auto simp: rev_complete_def PodIndex_Delete_def gomap_simps)
qed (use rc in \<open>simp add: PodIndex_Delete_def\<close>)

section \<open>The pod index implements the index contract\<close>

lemma PodIndex_Get_New: "PodIndex_Get NewPodIndex = Map.empty"
  by (simp add: PodIndex_Get_def NewPodIndex_def fun_eq_iff)

lemma PodIndex_count:
  "podindex_inv pi \<Longrightarrow>
     PodIndex_Size pi = card (dom (gm_get (pods pi))) \<and> finite (dom (gm_get (pods pi)))"
  by (auto simp: PodIndex_Size_def podindex_inv_def dom_map_of_conv_image_fst finite_dom_map_of
      card_image distinct_card simp flip: set_map)

interpretation podi: object_index NewPodIndex "\<lambda>(n, info) pi. PodIndex_Upsert pi n info"
  "\<lambda>n pi. PodIndex_Delete pi n" PodIndex_Get PodIndex_GetAll PodIndex_Size
  fst "\<lambda>(n, info). copyPodInfo info" "\<lambda>_. True" podindex_inv
proof (unfold_locales, goal_cases)
  case (5 s r)
  then show ?case
    by (cases r) (simp add: PodIndex_Get_eq podindex_inv_Upsert fun_eq_iff gomap_simps)
next
  case (6 s k)
  then show ?case by (simp add: PodIndex_Get_eq podindex_inv_Delete pods_Delete fun_eq_iff)
next
  case (7 s)
  then show ?case by (auto simp: PodIndex_Get_eq set_PodIndex_GetAll ran_def)
next
  case (8 s)
  then have "PodIndex_Get s = gm_get (pods s)" by (simp add: PodIndex_Get_eq fun_eq_iff)
  with 8 show ?case by (simp add: PodIndex_count)
qed (auto intro: wf_intros simp: PodIndex_Get_New)

section \<open>Properties\<close>

text \<open>The pod index after any history of updates, from \<open>NewPodIndex\<close>.\<close>

abbreviation pod_run :: "(NamespacedName, NamespacedName \<times> PodInfo) index_op list \<Rightarrow> PodIndex" where
  "pod_run ops \<equiv>
     run_ops (\<lambda>(n, info) pi. PodIndex_Upsert pi n info) (\<lambda>n pi. PodIndex_Delete pi n) ops NewPodIndex"

lemma ok_ops_True [simp]: "ok_ops (\<lambda>_. True) xs"
  by (auto simp: ok_ops_def list_all_iff split: index_op.split)

lemma podindex_inv_run [simp]: "podindex_inv (pod_run ops)"
  by (rule podi.run_ops_inv) simp


text \<open>
  The reverse lookup never lies. Whatever updates happened before, a pod that \<open>GetByIP\<close>
  returns is a pod of the index and its IP is the one asked for.
\<close>

theorem GetByIP_sound:
  "PodIndex_GetByIP (pod_run ops) ip = Some info \<Longrightarrow>
     IP info = ip \<and> (\<exists>n. PodIndex_Get (pod_run ops) n = Some info)"
  by (auto simp: PodIndex_GetByIP_def PodIndex_Get_def dest!: podindex_inv_rev [rotated]
      split: option.splits)

definition pod_frontend :: PodInfo where
  "pod_frontend = \<lparr>IP = ''10.0.0.5'', Labels = Some [(''app'', ''frontend'')],
     Namespace = ''default'', Name = ''web''\<rparr>"

theorem GetByIP_sound_witness:
  "PodIndex_GetByIP (pod_run [OpUpsert (NamespacedName ''default'' ''web'', pod_frontend)])
      ''10.0.0.5'' = Some pod_frontend \<and>
   (\<exists>n. PodIndex_Get (pod_run [OpUpsert (NamespacedName ''default'' ''web'', pod_frontend)]) n
      = Some pod_frontend)"
proof -
  have h: "PodIndex_GetByIP (pod_run [OpUpsert (NamespacedName ''default'' ''web'', pod_frontend)])
      ''10.0.0.5'' = Some pod_frontend"
    by (simp add: PodIndex_GetByIP_def PodIndex_Upsert_def NewPodIndex_def pod_frontend_def
        copyPodInfo_def)
  show ?thesis using h GetByIP_sound [OF h] by blast
qed

text \<open>
  While no two indexed pods share an IP, the reverse lookup is exact: storing a pod under an IP
  that no other indexed pod has, or deleting any pod, keeps \<open>GetByIP\<close> returning precisely the
  indexed pod with the IP asked for.
\<close>

theorem GetByIP_exact:
  assumes "podindex_inv pi" and "rev_complete pi" and "ip_free pi n (IP info)"
    and "pi' = PodIndex_Upsert pi n info \<or> pi' = PodIndex_Delete pi m"
  shows "rev_complete pi' \<and>
    (PodIndex_GetByIP pi' ip = Some p \<longleftrightarrow> (\<exists>k. PodIndex_Get pi' k = Some p \<and> IP p = ip))"
proof -
  have inv: "podindex_inv pi'" and rc: "rev_complete pi'"
    using assms by (auto intro: wf_intros rev_complete_Upsert rev_complete_Delete)
  have "PodIndex_GetByIP pi' ip = Some p \<longleftrightarrow>
      (\<exists>k. gm_get (ipToPod pi') ip = Some k \<and> PodIndex_Get pi' k = Some p)"
    by (auto simp: PodIndex_GetByIP_def PodIndex_Get_def split: option.splits)
  also have "\<dots> \<longleftrightarrow> (\<exists>k. PodIndex_Get pi' k = Some p \<and> IP p = ip)"
    using inv rc by (auto simp: PodIndex_Get_eq dest: podindex_inv_rev rev_completeD)
  finally show ?thesis using rc by simp
qed

theorem GetByIP_exact_witness:
  "PodIndex_GetByIP (PodIndex_Upsert NewPodIndex (NamespacedName ''default'' ''web'') pod_frontend)
     ''10.0.0.5'' = Some pod_frontend"
proof -
  let ?n = "NamespacedName ''default'' ''web''"
  have free: "ip_free NewPodIndex ?n (IP pod_frontend)"
    by (simp add: ip_free_def NewPodIndex_def)
  have "PodIndex_Get (PodIndex_Upsert NewPodIndex ?n pod_frontend) ?n = Some pod_frontend"
    by (simp add: PodIndex_Get_def NewPodIndex_def pod_frontend_def copyPodInfo_def)
  then show ?thesis
    using GetByIP_exact [OF podindex_inv_New rev_complete_New free, of _ ?n "''10.0.0.5''" pod_frontend]
    by (auto simp: pod_frontend_def)
qed

text \<open>
  Sharing an IP breaks the reverse map. When two pods with one IP are indexed (as pods on the
  host network of one node are), deleting the first also drops the reverse entry of the second:
  \<open>GetByIP\<close> finds nothing although the second pod is still in the index with that IP.
\<close>

theorem shared_ip_delete_drops_reverse_entry:
  assumes "a \<noteq> b" and "IP i = IP j"
  shows "PodIndex_GetByIP (pod_run [OpUpsert (a, i), OpUpsert (b, j), OpDelete a]) (IP j) = None \<and>
    PodIndex_Get (pod_run [OpUpsert (a, i), OpUpsert (b, j), OpDelete a]) b = Some (copyPodInfo j)"
proof
  show "PodIndex_GetByIP (pod_run [OpUpsert (a, i), OpUpsert (b, j), OpDelete a]) (IP j) = None"
    using assms
    by (simp add: PodIndex_GetByIP_def PodIndex_Delete_def PodIndex_Upsert_def NewPodIndex_def
        gomap_simps)
  show "PodIndex_Get (pod_run [OpUpsert (a, i), OpUpsert (b, j), OpDelete a]) b = Some (copyPodInfo j)"
    using assms
    by (simp add: PodIndex_Get_def PodIndex_Delete_def PodIndex_Upsert_def NewPodIndex_def
        gomap_simps)
qed

theorem shared_ip_delete_drops_reverse_entry_witness:
  "NamespacedName ''default'' ''web'' \<noteq> NamespacedName ''default'' ''db'' \<and>
   PodIndex_GetByIP (pod_run [OpUpsert (NamespacedName ''default'' ''web'', pod_frontend),
     OpUpsert (NamespacedName ''default'' ''db'', pod_frontend\<lparr>Name := ''db''\<rparr>),
     OpDelete (NamespacedName ''default'' ''web'')]) ''10.0.0.5'' = None"
  using shared_ip_delete_drops_reverse_entry
    [of "NamespacedName ''default'' ''web''" "NamespacedName ''default'' ''db''" pod_frontend
      "pod_frontend\<lparr>Name := ''db''\<rparr>"]
  by (simp add: pod_frontend_def)

text \<open>
  The pods a selector picks are exactly the indexed pods whose labels contain every pair of
  the selector; an empty or nil selector picks none. The two label maps are compared as maps: the
  order in which their entries are visited plays no role.
\<close>

theorem GetPodsMatchingSelector_exact:
  assumes "podindex_inv pi" and "nm_wf sel"
  shows "info \<in> set (PodIndex_GetPodsMatchingSelector pi sel) \<longleftrightarrow>
    (\<exists>n. PodIndex_Get pi n = Some info) \<and> nm_list sel \<noteq> [] \<and> nm_get sel \<subseteq>\<^sub>m nm_get (Labels info)"
  using assms
  by (auto simp: PodIndex_Matching_eq set_PodIndex_GetAll PodIndex_Get_eq LabelsContainAll_map_le)

theorem GetPodsMatchingSelector_exact_witness:
  "pod_frontend \<in> set (PodIndex_GetPodsMatchingSelector
     (PodIndex_Upsert NewPodIndex (NamespacedName ''default'' ''web'') pod_frontend)
     (Some [(''app'', ''frontend'')]))"
proof -
  let ?n = "NamespacedName ''default'' ''web''"
  let ?pi = "PodIndex_Upsert NewPodIndex ?n pod_frontend"
  have "PodIndex_Get ?pi ?n = Some pod_frontend"
    by (simp add: PodIndex_Get_def NewPodIndex_def pod_frontend_def copyPodInfo_def)
  moreover have "podindex_inv ?pi" by (simp add: podindex_inv_Upsert)
  ultimately show ?thesis
    using GetPodsMatchingSelector_exact [of ?pi "Some [(''app'', ''frontend'')]" pod_frontend]
    by (auto simp: pod_frontend_def)
qed

end
