(* ===== verification/Api_Types.thy ===== *)
theory Api_Types
  imports Pod_Index
begin

text \<open>
  \<^verbatim>\<open>controller/api/v1alpha1\<close>: the DnsPolicy resource and its generated deep-copy functions.
  Maps and slices keep the difference between nil and empty. Of \<^verbatim>\<open>metav1.ObjectMeta\<close> and
  \<^verbatim>\<open>metav1.Condition\<close>, which are library types, the record has the fields the controller reads or
  writes. Every Go value is a HOL value here, so a deep copy is a function from the value to the
  value read through the copy; the library's \<^verbatim>\<open>DeepCopyInto\<close> of metadata and conditions, which
  copies a value without changing it, is the plain assignment \<^verbatim>\<open>*out = *in\<close> before it.
\<close>

type_synonym Time = int

record Condition =
  Type :: string
  CondStatus :: string
  CondObservedGeneration :: int
  LastTransitionTime :: Time
  Reason :: string
  Message :: string

record DnsPolicySpec =
  TargetSelector :: strmap
  BlockList :: strslice
  Subject :: strmap
  DryRun :: bool
  Doh :: bool
  DohTlsSecrets :: strmap

record DnsPolicyStatus =
  SelectorHash :: string
  SpecHash :: string
  ObservedGeneration :: int
  Conditions :: "Condition list option"

record ObjectMeta =
  MetaNamespace :: string
  MetaName :: string
  Generation :: int
  DeletionTimestamp :: "Time option"
  Finalizers :: "string list"

record DnsPolicy =
  ObjMeta :: ObjectMeta
  Spec :: DnsPolicySpec
  Status :: DnsPolicyStatus

record DnsPolicyList =
  ListMeta :: string
  Items :: "DnsPolicy list option"

section \<open>Deep copies\<close>

text \<open>\<^verbatim>\<open>*out = make(map[string]string, len(*in)); for key, val := range *in { (*out)[key] = val }\<close>\<close>

fun deepcopy_map :: "strmap \<Rightarrow> strmap" where
  "deepcopy_map None = None"
| "deepcopy_map (Some m) = Some (range_copy m [])"

text \<open>\<^verbatim>\<open>copy(dst, src)\<close> of Go: overwrites the common prefix of \<open>dst\<close>.\<close>

fun go_copy :: "'a list \<Rightarrow> 'a list \<Rightarrow> 'a list" where
  "go_copy [] src = []"
| "go_copy dst [] = dst"
| "go_copy (_ # dst) (x # src) = x # go_copy dst src"

fun deepcopy_slice :: "strslice \<Rightarrow> strslice" where
  "deepcopy_slice None = None"
| "deepcopy_slice (Some xs) = Some (go_copy (replicate (length xs) []) xs)"

definition DnsPolicySpec_DeepCopyInto :: "DnsPolicySpec \<Rightarrow> DnsPolicySpec" where
  "DnsPolicySpec_DeepCopyInto inp =
     inp\<lparr>TargetSelector := deepcopy_map (TargetSelector inp),
         BlockList := deepcopy_slice (BlockList inp),
         Subject := deepcopy_map (Subject inp),
         DohTlsSecrets := deepcopy_map (DohTlsSecrets inp)\<rparr>"

text \<open>\<^verbatim>\<open>for i := range *in { (*in)[i].DeepCopyInto(&(*out)[i]) }\<close> into a slice of the same length.\<close>

primrec deepcopy_items :: "('a \<Rightarrow> 'a) \<Rightarrow> 'a list \<Rightarrow> 'a list" where
  "deepcopy_items cp [] = []"
| "deepcopy_items cp (x # xs) = cp x # deepcopy_items cp xs"

definition DnsPolicyStatus_DeepCopyInto :: "DnsPolicyStatus \<Rightarrow> DnsPolicyStatus" where
  "DnsPolicyStatus_DeepCopyInto inp =
     inp\<lparr>Conditions := map_option (deepcopy_items (\<lambda>c. c)) (Conditions inp)\<rparr>"

definition DnsPolicy_DeepCopyInto :: "DnsPolicy \<Rightarrow> DnsPolicy" where
  "DnsPolicy_DeepCopyInto inp =
     inp\<lparr>Spec := DnsPolicySpec_DeepCopyInto (Spec inp),
         Status := DnsPolicyStatus_DeepCopyInto (Status inp)\<rparr>"

text \<open>\<^verbatim>\<open>DeepCopy\<close> on a pointer: nil gives nil.\<close>

definition DnsPolicy_DeepCopy :: "DnsPolicy option \<Rightarrow> DnsPolicy option" where
  "DnsPolicy_DeepCopy inp =
     (case inp of None \<Rightarrow> None | Some p \<Rightarrow> Some (DnsPolicy_DeepCopyInto p))"

definition DnsPolicySpec_DeepCopy :: "DnsPolicySpec option \<Rightarrow> DnsPolicySpec option" where
  "DnsPolicySpec_DeepCopy inp =
     (case inp of None \<Rightarrow> None | Some p \<Rightarrow> Some (DnsPolicySpec_DeepCopyInto p))"

definition DnsPolicyStatus_DeepCopy :: "DnsPolicyStatus option \<Rightarrow> DnsPolicyStatus option" where
  "DnsPolicyStatus_DeepCopy inp =
     (case inp of None \<Rightarrow> None | Some p \<Rightarrow> Some (DnsPolicyStatus_DeepCopyInto p))"

definition DnsPolicyList_DeepCopyInto :: "DnsPolicyList \<Rightarrow> DnsPolicyList" where
  "DnsPolicyList_DeepCopyInto inp =
     inp\<lparr>Items := map_option (deepcopy_items DnsPolicy_DeepCopyInto) (Items inp)\<rparr>"

definition DnsPolicyList_DeepCopy :: "DnsPolicyList option \<Rightarrow> DnsPolicyList option" where
  "DnsPolicyList_DeepCopy inp =
     (case inp of None \<Rightarrow> None | Some p \<Rightarrow> Some (DnsPolicyList_DeepCopyInto p))"

text \<open>A \<^verbatim>\<open>runtime.Object\<close> that holds a policy or a list; \<open>None\<close> is the nil interface value.\<close>

datatype runtime_Object = PolicyObject DnsPolicy | PolicyListObject DnsPolicyList

definition DnsPolicy_DeepCopyObject :: "DnsPolicy option \<Rightarrow> runtime_Object option" where
  "DnsPolicy_DeepCopyObject inp =
     (case DnsPolicy_DeepCopy inp of Some c \<Rightarrow> Some (PolicyObject c) | None \<Rightarrow> None)"

definition DnsPolicyList_DeepCopyObject :: "DnsPolicyList option \<Rightarrow> runtime_Object option" where
  "DnsPolicyList_DeepCopyObject inp =
     (case DnsPolicyList_DeepCopy inp of Some c \<Rightarrow> Some (PolicyListObject c) | None \<Rightarrow> None)"

section \<open>A deep copy has the value of the original\<close>

definition spec_wf :: "DnsPolicySpec \<Rightarrow> bool" where
  "spec_wf s \<longleftrightarrow> nm_wf (TargetSelector s) \<and> nm_wf (Subject s) \<and> nm_wf (DohTlsSecrets s)"

abbreviation policy_wf :: "DnsPolicy \<Rightarrow> bool" where
  "policy_wf p \<equiv> spec_wf (Spec p)"

lemma deepcopy_map_id [simp]: "nm_wf m \<Longrightarrow> deepcopy_map m = m"
  by (cases m) auto

lemma nm_wf_deepcopy_map [simp]: "nm_wf (deepcopy_map m)"
  by (cases m) (auto intro: gm_wf_range_copy)

lemma go_copy_same_length: "length dst = length src \<Longrightarrow> go_copy dst src = src"
  by (induction dst src rule: go_copy.induct) auto

lemma deepcopy_slice_id [simp]: "deepcopy_slice xs = xs"
  by (cases xs) (auto simp: go_copy_same_length)

lemma deepcopy_items_map: "deepcopy_items cp xs = map cp xs"
  by (induction xs) auto

lemma deepcopy_status_id [simp]: "DnsPolicyStatus_DeepCopyInto s = s"
  by (cases "Conditions s") (auto simp: DnsPolicyStatus_DeepCopyInto_def deepcopy_items_map)

lemma deepcopy_spec_id: "spec_wf s \<Longrightarrow> DnsPolicySpec_DeepCopyInto s = s"
  by (simp add: DnsPolicySpec_DeepCopyInto_def spec_wf_def)

lemma deepcopy_spec_wf [simp]: "spec_wf (DnsPolicySpec_DeepCopyInto s)"
  by (simp add: DnsPolicySpec_DeepCopyInto_def spec_wf_def)

lemma deepcopy_policy_id: "policy_wf p \<Longrightarrow> DnsPolicy_DeepCopyInto p = p"
  by (simp add: DnsPolicy_DeepCopyInto_def deepcopy_spec_id)

lemma deepcopy_policy_sel [simp]:
  "ObjMeta (DnsPolicy_DeepCopyInto p) = ObjMeta p" "Status (DnsPolicy_DeepCopyInto p) = Status p"
  "policy_wf (DnsPolicy_DeepCopyInto p)"
  by (simp_all add: DnsPolicy_DeepCopyInto_def)

text \<open>
  A \<open>DeepCopy\<close> of a list of policies returns a list equal to the original, field by field, with
  nil maps, nil slices and a nil list kept nil (a copy of an empty map is not nil and the reverse);
  \<open>DeepCopyObject\<close> wraps the same copy, and of a nil list is the nil interface value.
\<close>

theorem DnsPolicyList_DeepCopy_faithful:
  assumes "\<forall>p \<in> set (sl_list (Items l)). policy_wf p"
  shows "DnsPolicyList_DeepCopy (Some l) = Some l \<and> DnsPolicyList_DeepCopy None = None \<and>
    DnsPolicyList_DeepCopyObject (Some l) = Some (PolicyListObject l) \<and>
    DnsPolicyList_DeepCopyObject None = None"
proof -
  have "map DnsPolicy_DeepCopyInto ps = ps" if "Items l = Some ps" for ps
    using assms that by (simp add: deepcopy_policy_id map_idI)
  then show ?thesis
    by (cases "Items l")
      (auto simp: DnsPolicyList_DeepCopy_def DnsPolicyList_DeepCopyInto_def deepcopy_items_map
        DnsPolicyList_DeepCopyObject_def)
qed

definition sample_policy :: DnsPolicy where
  "sample_policy =
     \<lparr>ObjMeta = \<lparr>MetaNamespace = ''default'', MetaName = ''block-ads'', Generation = 1,
        DeletionTimestamp = None, Finalizers = [''dns.dnspolicies.io/finalizer'']\<rparr>,
      Spec = \<lparr>TargetSelector = Some [(''app'', ''frontend'')],
        BlockList = Some [''b.ads.com'', ''a.ads.com'', ''b.ads.com''], Subject = None,
        DryRun = False, Doh = False, DohTlsSecrets = Some []\<rparr>,
      Status = \<lparr>SelectorHash = [], SpecHash = [], ObservedGeneration = 0, Conditions = None\<rparr>\<rparr>"

theorem DnsPolicyList_DeepCopy_faithful_witness:
  "DnsPolicyList_DeepCopy (Some \<lparr>ListMeta = [], Items = Some [sample_policy]\<rparr>) =
     Some \<lparr>ListMeta = [], Items = Some [sample_policy]\<rparr>"
  using DnsPolicyList_DeepCopy_faithful [of "\<lparr>ListMeta = [], Items = Some [sample_policy]\<rparr>"]
  by (simp add: sample_policy_def spec_wf_def)

end
