(* ===== verification/Policy_Index.thy ===== *)
theory Policy_Index
  imports Api_Types
begin

text \<open>
  \<^verbatim>\<open>controller/internal/controller/policy_index.go\<close>: the index of DNS policies. \<open>Upsert\<close> and
  \<open>Delete\<close> return the selector under which the policy was indexed before (nil when it was not),
  from which the reconciler finds the pods it has to recalculate.
\<close>

record PolicyIndex =
  policies :: "(NamespacedName, DnsPolicy) gomap"

definition NewPolicyIndex :: PolicyIndex where
  "NewPolicyIndex = \<lparr>policies = []\<rparr>"

definition policyKey :: "DnsPolicy \<Rightarrow> NamespacedName" where
  "policyKey policy = NamespacedName (MetaNamespace (ObjMeta policy)) (MetaName (ObjMeta policy))"

definition PolicyIndex_Upsert :: "PolicyIndex \<Rightarrow> DnsPolicy \<Rightarrow> strmap \<times> PolicyIndex" where
  "PolicyIndex_Upsert pi policy =
     (let namespacedName = policyKey policy;
          oldSelector = (case gm_get (policies pi) namespacedName of
                           Some existing \<Rightarrow> TargetSelector (Spec existing)
                         | None \<Rightarrow> None)
      in (oldSelector,
          pi\<lparr>policies := gm_put namespacedName (DnsPolicy_DeepCopyInto policy) (policies pi)\<rparr>))"

definition PolicyIndex_Delete :: "PolicyIndex \<Rightarrow> NamespacedName \<Rightarrow> strmap \<times> PolicyIndex" where
  "PolicyIndex_Delete pi namespacedName =
     (case gm_get (policies pi) namespacedName of
        Some existing \<Rightarrow>
          (TargetSelector (Spec existing), pi\<lparr>policies := gm_del namespacedName (policies pi)\<rparr>)
      | None \<Rightarrow> (None, pi))"

definition PolicyIndex_Get :: "PolicyIndex \<Rightarrow> NamespacedName \<Rightarrow> DnsPolicy option" where
  "PolicyIndex_Get pi namespacedName =
     (case gm_get (policies pi) namespacedName of
        Some policy \<Rightarrow> DnsPolicy_DeepCopy (Some policy)
      | None \<Rightarrow> None)"

definition PolicyIndex_GetAll :: "PolicyIndex \<Rightarrow> DnsPolicy list" where
  "PolicyIndex_GetAll pi = map (\<lambda>(_, policy). DnsPolicy_DeepCopyInto policy) (policies pi)"

definition PolicyIndex_Size :: "PolicyIndex \<Rightarrow> nat" where
  "PolicyIndex_Size pi = length (policies pi)"

section \<open>Invariant\<close>

definition policyindex_inv :: "PolicyIndex \<Rightarrow> bool" where
  "policyindex_inv pi \<longleftrightarrow>
     gm_wf (policies pi) \<and>
     (\<forall>n p. gm_get (policies pi) n = Some p \<longrightarrow> policy_wf p \<and> policyKey p = n)"

lemma policyKey_copy [simp]: "policyKey (DnsPolicy_DeepCopyInto p) = policyKey p"
  by (simp add: policyKey_def)

lemma policyindex_inv_New [wf_intros, simp]: "policyindex_inv NewPolicyIndex"
  by (simp add: policyindex_inv_def NewPolicyIndex_def)

lemma policies_Upsert [simp]:
  "policies (snd (PolicyIndex_Upsert pi p)) =
     gm_put (policyKey p) (DnsPolicy_DeepCopyInto p) (policies pi)"
  by (simp add: PolicyIndex_Upsert_def Let_def)

lemma policies_Delete [simp]:
  "gm_get (policies (snd (PolicyIndex_Delete pi n))) = (gm_get (policies pi))(n := None)"
  by (auto simp: PolicyIndex_Delete_def gomap_simps fun_eq_iff split: option.split)

lemma policyindex_inv_Upsert [wf_intros]:
  "policyindex_inv pi \<Longrightarrow> policyindex_inv (snd (PolicyIndex_Upsert pi p))"
  by (auto simp: policyindex_inv_def gomap_simps)

lemma policyindex_inv_Delete [wf_intros]:
  "policyindex_inv pi \<Longrightarrow> policyindex_inv (snd (PolicyIndex_Delete pi n))"
  by (auto simp: policyindex_inv_def PolicyIndex_Delete_def gomap_simps split: option.split
      if_splits)

lemma policyindex_inv_elem:
  "policyindex_inv pi \<Longrightarrow> (n, p) \<in> set (policies pi) \<Longrightarrow> policy_wf p \<and> policyKey p = n"
  by (auto simp: policyindex_inv_def gm_get_iff)

lemma PolicyIndex_Get_eq: "policyindex_inv pi \<Longrightarrow> PolicyIndex_Get pi n = gm_get (policies pi) n"
  by (auto simp: PolicyIndex_Get_def DnsPolicy_DeepCopy_def policyindex_inv_def deepcopy_policy_id
      split: option.split)

lemma PolicyIndex_GetAll_eq: "policyindex_inv pi \<Longrightarrow> PolicyIndex_GetAll pi = map snd (policies pi)"
  by (auto simp: PolicyIndex_GetAll_def deepcopy_policy_id dest: policyindex_inv_elem)

lemma set_PolicyIndex_GetAll:
  "policyindex_inv pi \<Longrightarrow>
     p \<in> set (PolicyIndex_GetAll pi) \<longleftrightarrow> (\<exists>n. gm_get (policies pi) n = Some p)"
  by (force simp: PolicyIndex_GetAll_eq policyindex_inv_def gm_get_iff)

lemma PolicyIndex_Get_New: "PolicyIndex_Get NewPolicyIndex = Map.empty"
  by (simp add: PolicyIndex_Get_def NewPolicyIndex_def fun_eq_iff)

lemma PolicyIndex_count:
  "policyindex_inv pi \<Longrightarrow>
     PolicyIndex_Size pi = card (dom (gm_get (policies pi))) \<and> finite (dom (gm_get (policies pi)))"
  by (auto simp: PolicyIndex_Size_def policyindex_inv_def dom_map_of_conv_image_fst finite_dom_map_of
      card_image distinct_card simp flip: set_map)

interpretation poli: object_index NewPolicyIndex "\<lambda>p pi. snd (PolicyIndex_Upsert pi p)"
  "\<lambda>n pi. snd (PolicyIndex_Delete pi n)" PolicyIndex_Get PolicyIndex_GetAll PolicyIndex_Size
  policyKey DnsPolicy_DeepCopyInto "\<lambda>_. True" policyindex_inv
proof (unfold_locales, goal_cases)
  case (5 s r)
  then show ?case
    by (simp add: PolicyIndex_Get_eq policyindex_inv_Upsert fun_eq_iff gomap_simps)
next
  case (6 s k)
  then show ?case by (simp add: PolicyIndex_Get_eq policyindex_inv_Delete fun_eq_iff)
next
  case (7 s)
  then show ?case by (auto simp: PolicyIndex_Get_eq set_PolicyIndex_GetAll ran_def)
next
  case (8 s)
  then have "PolicyIndex_Get s = gm_get (policies s)" by (simp add: PolicyIndex_Get_eq fun_eq_iff)
  with 8 show ?case by (simp add: PolicyIndex_count)
qed (auto intro: wf_intros simp: PolicyIndex_Get_New)

section \<open>Properties\<close>

abbreviation policy_run :: "(NamespacedName, DnsPolicy) index_op list \<Rightarrow> PolicyIndex" where
  "policy_run ops \<equiv>
     run_ops (\<lambda>p pi. snd (PolicyIndex_Upsert pi p)) (\<lambda>n pi. snd (PolicyIndex_Delete pi n))
       ops NewPolicyIndex"

text \<open>
  The policy index refines an abstract map from names to policies. After any sequence of
  \<open>Upsert\<close> and \<open>Delete\<close> calls, \<open>Get\<close> returns the copy made by the last \<open>Upsert\<close> of a policy with
  that name, and nil when there is none or a \<open>Delete\<close> of the name came later; the selector that
  a further \<open>Upsert\<close> or \<open>Delete\<close> returns is the one of that copy.
\<close>

theorem policy_index_last_write_wins:
  "PolicyIndex_Get (policy_run ops) n =
     (case last_op policyKey n ops of
        Some (OpUpsert p) \<Rightarrow> Some (DnsPolicy_DeepCopyInto p)
      | _ \<Rightarrow> None) \<and>
   fst (PolicyIndex_Delete (policy_run ops) n) =
     (case last_op policyKey n ops of
        Some (OpUpsert p) \<Rightarrow> TargetSelector (Spec (DnsPolicy_DeepCopyInto p))
      | _ \<Rightarrow> None)"
proof -
  let ?pi = "policy_run ops"
  have get: "PolicyIndex_Get ?pi n =
      (case last_op policyKey n ops of
         Some (OpUpsert p) \<Rightarrow> Some (DnsPolicy_DeepCopyInto p) | _ \<Rightarrow> None)"
    by (auto simp: poli.run_ops_refines split: option.split index_op.split)
  have "policyindex_inv ?pi" by (rule poli.run_ops_inv) simp
  then have "fst (PolicyIndex_Delete ?pi n) =
      (case PolicyIndex_Get ?pi n of None \<Rightarrow> None | Some p \<Rightarrow> TargetSelector (Spec p))"
    by (simp add: PolicyIndex_Get_eq PolicyIndex_Delete_def split: option.split)
  then show ?thesis using get by (auto split: option.split index_op.split)
qed

text \<open>
  \<open>Upsert\<close> returns the old selector of a policy that was indexed before whether or not the
  selector changed: indexing a policy with a selector twice returns that selector, not nil.
\<close>

theorem Upsert_returns_selector_when_unchanged:
  assumes "policy_wf p" and "TargetSelector (Spec p) \<noteq> None"
  shows "fst (PolicyIndex_Upsert (snd (PolicyIndex_Upsert pi p)) p) = TargetSelector (Spec p) \<and>
    fst (PolicyIndex_Upsert (snd (PolicyIndex_Upsert pi p)) p) \<noteq> None"
  using assms by (simp add: PolicyIndex_Upsert_def Let_def gomap_simps deepcopy_policy_id)

theorem Upsert_returns_selector_when_unchanged_witness:
  "fst (PolicyIndex_Upsert (snd (PolicyIndex_Upsert NewPolicyIndex sample_policy)) sample_policy) =
     Some [(''app'', ''frontend'')]"
  using Upsert_returns_selector_when_unchanged [of sample_policy NewPolicyIndex]
  by (simp add: sample_policy_def spec_wf_def)

end
