(* ===== verification/Blocklist_Cache.thy ===== *)
theory Blocklist_Cache
  imports Policy_Index
begin

text \<open>
  \<^verbatim>\<open>controller/internal/controller/blocklist_cache.go\<close>: the computed map from pod IPs to blocked
  domains. The Go struct points to the two indexes, which the reconcilers update through the same
  pointers; the record holds them by value, so one \<open>BlocklistCache\<close> is the whole shared state of
  the controller. Each operation holds the cache's mutex for its whole body.

  The specification is \<open>expected\<close>: the entry that the two indexes call for at an IP. A state is
  \<open>coherent\<close> when the cache holds exactly the expected entries. The incremental operations are
  related to it by \<open>coherent_recalc\<close>: recalculating a set of pods repairs the entries of those pods
  and leaves the others, so it suffices that the pods outside the set were right before.
\<close>

record BlocklistEntry =
  entryIP :: string
  Domains :: "string list"

record BlocklistCache =
  podIndex :: PodIndex
  policyIndex :: PolicyIndex
  entries :: "(string, BlocklistEntry) gomap"

section \<open>Operations\<close>

definition NewBlocklistCache :: "PodIndex \<Rightarrow> PolicyIndex \<Rightarrow> BlocklistCache" where
  "NewBlocklistCache podIdx policyIdx =
     \<lparr>podIndex = podIdx, policyIndex = policyIdx, entries = []\<rparr>"

primrec add_domains :: "string list \<Rightarrow> (string, unit) gomap \<Rightarrow> (string, unit) gomap" where
  "add_domains [] domainsSet = domainsSet"
| "add_domains (domain # rest) domainsSet = add_domains rest (gm_put domain () domainsSet)"

primrec collect_domains ::
  "strmap \<Rightarrow> DnsPolicy list \<Rightarrow> (string, unit) gomap \<Rightarrow> (string, unit) gomap" where
  "collect_domains labels [] domainsSet = domainsSet"
| "collect_domains labels (policy # rest) domainsSet =
     (if nm_len (TargetSelector (Spec policy)) = 0 then collect_domains labels rest domainsSet
      else if LabelsContainAll labels (TargetSelector (Spec policy))
      then collect_domains labels rest (add_domains (sl_list (BlockList (Spec policy))) domainsSet)
      else collect_domains labels rest domainsSet)"

definition recalculatePodInternal :: "BlocklistCache \<Rightarrow> PodInfo \<Rightarrow> BlocklistCache" where
  "recalculatePodInternal bc pod =
     (if IP pod = [] then bc
      else let domainsSet = collect_domains (Labels pod) (PolicyIndex_GetAll (policyIndex bc)) [];
               domains = sort (map fst domainsSet)
           in bc\<lparr>entries := gm_put (IP pod) \<lparr>entryIP = IP pod, Domains = domains\<rparr> (entries bc)\<rparr>)"

definition RecalculatePod :: "BlocklistCache \<Rightarrow> NamespacedName \<Rightarrow> BlocklistCache" where
  "RecalculatePod bc namespacedName =
     (case PodIndex_Get (podIndex bc) namespacedName of
        None \<Rightarrow> bc
      | Some pod \<Rightarrow> recalculatePodInternal bc pod)"

definition RemovePod :: "BlocklistCache \<Rightarrow> string \<Rightarrow> BlocklistCache" where
  "RemovePod bc ip = bc\<lparr>entries := gm_del ip (entries bc)\<rparr>"

text \<open>\<^verbatim>\<open>for _, pod := range pods { bc.recalculatePodInternal(pod) }\<close>\<close>

primrec recalc_pods :: "PodInfo list \<Rightarrow> BlocklistCache \<Rightarrow> BlocklistCache" where
  "recalc_pods [] bc = bc"
| "recalc_pods (pod # rest) bc = recalc_pods rest (recalculatePodInternal bc pod)"

definition RecalculateForPolicy :: "BlocklistCache \<Rightarrow> strmap \<Rightarrow> BlocklistCache" where
  "RecalculateForPolicy bc selector =
     (if nm_len selector = 0 then bc
      else recalc_pods (PodIndex_GetPodsMatchingSelector (podIndex bc) selector) bc)"

text \<open>\<^verbatim>\<open>for _, pod := range pods { affectedPods[pod.IP] = pod }\<close>\<close>

primrec add_affected ::
  "PodInfo list \<Rightarrow> (string, PodInfo) gomap \<Rightarrow> (string, PodInfo) gomap" where
  "add_affected [] affectedPods = affectedPods"
| "add_affected (pod # rest) affectedPods = add_affected rest (gm_put (IP pod) pod affectedPods)"

definition RecalculateForPolicyChange :: "BlocklistCache \<Rightarrow> strmap \<Rightarrow> strmap \<Rightarrow> BlocklistCache" where
  "RecalculateForPolicyChange bc oldSelector newSelector =
     (let affected0 = [];
          affected1 = (if nm_len oldSelector > 0
            then add_affected (PodIndex_GetPodsMatchingSelector (podIndex bc) oldSelector) affected0
            else affected0);
          affected2 = (if nm_len newSelector > 0
            then add_affected (PodIndex_GetPodsMatchingSelector (podIndex bc) newSelector) affected1
            else affected1)
      in recalc_pods (map snd affected2) bc)"

definition RecalculateAll :: "BlocklistCache \<Rightarrow> BlocklistCache" where
  "RecalculateAll bc = recalc_pods (PodIndex_GetAll (podIndex bc)) (bc\<lparr>entries := []\<rparr>)"

definition copyEntry :: "BlocklistEntry \<Rightarrow> BlocklistEntry" where
  "copyEntry entry =
     \<lparr>entryIP = entryIP entry,
      Domains = go_copy (replicate (length (Domains entry)) []) (Domains entry)\<rparr>"

definition GetBlocklist :: "BlocklistCache \<Rightarrow> BlocklistEntry list" where
  "GetBlocklist bc =
     sort_key entryIP
       (map (\<lambda>(_, entry). copyEntry entry)
         (filter (\<lambda>(_, entry). length (Domains entry) > 0) (entries bc)))"

definition BlocklistCache_Size :: "BlocklistCache \<Rightarrow> nat" where
  "BlocklistCache_Size bc = length (entries bc)"

section \<open>Specification\<close>

definition blocked :: "DnsPolicy set \<Rightarrow> strmap \<Rightarrow> string set" where
  "blocked ps labels =
     {d. \<exists>p \<in> ps. LabelsContainAll labels (TargetSelector (Spec p)) \<and>
                  d \<in> set (sl_list (BlockList (Spec p)))}"

definition entry_for :: "PolicyIndex \<Rightarrow> PodInfo \<Rightarrow> BlocklistEntry" where
  "entry_for pol pod =
     \<lparr>entryIP = IP pod,
      Domains = sorted_list_of_set (blocked (set (PolicyIndex_GetAll pol)) (Labels pod))\<rparr>"

definition expected :: "PodIndex \<Rightarrow> PolicyIndex \<Rightarrow> string \<Rightarrow> BlocklistEntry option" where
  "expected pi pol ip =
     (if ip = [] then None else map_option (entry_for pol) (PodIndex_GetByIP pi ip))"

definition coherent :: "BlocklistCache \<Rightarrow> bool" where
  "coherent bc \<longleftrightarrow> gm_get (entries bc) = expected (podIndex bc) (policyIndex bc)"

definition entry_ok :: "string \<Rightarrow> BlocklistEntry \<Rightarrow> bool" where
  "entry_ok ip e \<longleftrightarrow>
     ip \<noteq> [] \<and> entryIP e = ip \<and> sorted (Domains e) \<and> distinct (Domains e)"

definition cache_inv :: "BlocklistCache \<Rightarrow> bool" where
  "cache_inv bc \<longleftrightarrow>
     podindex_inv (podIndex bc) \<and> policyindex_inv (policyIndex bc) \<and> gm_wf (entries bc) \<and>
     (\<forall>ip e. gm_get (entries bc) ip = Some e \<longrightarrow> entry_ok ip e)"

section \<open>Recalculating one pod\<close>

lemma gm_wf_add_domains: "gm_wf m \<Longrightarrow> gm_wf (add_domains ds m)"
  by (induction ds arbitrary: m) auto

lemma keys_add_domains: "fst ` set (add_domains ds m) = set ds \<union> fst ` set m"
  by (induction ds arbitrary: m) (auto simp: dom_update)

lemma gm_wf_collect: "gm_wf m \<Longrightarrow> gm_wf (collect_domains labels ps m)"
  by (induction ps arbitrary: m) (auto simp: gm_wf_add_domains)

lemma keys_collect:
  "fst ` set (collect_domains labels ps m) = blocked (set ps) labels \<union> fst ` set m"
  by (induction ps arbitrary: m) (auto simp: keys_add_domains blocked_def)

lemma finite_blocked [simp]: "finite (blocked (set ps) labels)"
proof -
  have "finite (fst ` set (collect_domains labels ps []))" by simp
  then show ?thesis by (simp add: keys_collect)
qed

lemma recalculatePodInternal_eq:
  "recalculatePodInternal bc pod =
     (if IP pod = [] then bc
      else bc\<lparr>entries := gm_put (IP pod) (entry_for (policyIndex bc) pod) (entries bc)\<rparr>)"
  by (simp add: recalculatePodInternal_def entry_for_def Let_def sort_distinct_eq gm_wf_collect
      keys_collect)

lemma recalculatePodInternal_indexes [simp]:
  "podIndex (recalculatePodInternal bc pod) = podIndex bc"
  "policyIndex (recalculatePodInternal bc pod) = policyIndex bc"
  by (simp_all add: recalculatePodInternal_eq)

lemma recalc_pods_indexes [simp]:
  "podIndex (recalc_pods ps bc) = podIndex bc" "policyIndex (recalc_pods ps bc) = policyIndex bc"
  by (induction ps arbitrary: bc) auto

lemma entry_for_sel [simp]: "entryIP (entry_for pol pod) = IP pod"
  by (simp add: entry_for_def)

lemma entry_ok_entry_for [simp]: "IP pod \<noteq> [] \<Longrightarrow> entry_ok (IP pod) (entry_for pol pod)"
  by (simp add: entry_ok_def entry_for_def)

lemma cache_inv_recalc1 [wf_intros]: "cache_inv bc \<Longrightarrow> cache_inv (recalculatePodInternal bc pod)"
  by (auto simp: cache_inv_def recalculatePodInternal_eq gomap_simps)

lemma cache_inv_recalc_pods [wf_intros]: "cache_inv bc \<Longrightarrow> cache_inv (recalc_pods ps bc)"
  by (induction ps arbitrary: bc) (auto intro: cache_inv_recalc1)

section \<open>Recalculating a set of pods\<close>

lemma recalc_pods_other:
  "ip = [] \<or> ip \<notin> IP ` set ps \<Longrightarrow>
     gm_get (entries (recalc_pods ps bc)) ip = gm_get (entries bc) ip"
proof (induction ps arbitrary: bc)
  case (Cons pod ps)
  then have "gm_get (entries (recalculatePodInternal bc pod)) ip = gm_get (entries bc) ip"
    by (auto simp: recalculatePodInternal_eq gomap_simps)
  with Cons show ?case by auto
qed simp

lemma recalc_pods_hit:
  assumes "pod \<in> set ps" and "IP pod \<noteq> []"
    and "\<forall>q \<in> set ps. IP q = IP pod \<longrightarrow> q = pod"
  shows "gm_get (entries (recalc_pods ps bc)) (IP pod) = Some (entry_for (policyIndex bc) pod)"
  using assms
proof (induction ps arbitrary: bc)
  case Nil
  then show ?case by simp
next
  case (Cons q ps)
  show ?case
  proof (cases "pod \<in> set ps")
    case True
    with Cons.IH [OF True Cons.prems(2)] Cons.prems(3) show ?thesis by simp
  next
    case False
    with Cons.prems(1) have "q = pod" by simp
    moreover have "IP pod \<notin> IP ` set ps" using Cons.prems(3) False by (metis imageE list.set_intros(2))
    ultimately show ?thesis
      using Cons.prems(2) recalc_pods_other [of "IP pod" ps "recalculatePodInternal bc q"]
      by (simp add: recalculatePodInternal_eq gomap_simps)
  qed
qed

lemma GetByIP_pods:
  assumes "podindex_inv pi" and "rev_complete pi"
  shows "PodIndex_GetByIP pi ip = Some pod \<longleftrightarrow> pod \<in> set (PodIndex_GetAll pi) \<and> IP pod = ip"
proof -
  have "PodIndex_GetByIP pi ip = Some pod \<longleftrightarrow> (\<exists>n. gm_get (ipToPod pi) ip = Some n \<and> gm_get (pods pi) n = Some pod)"
    using assms(1) by (auto simp: PodIndex_GetByIP_def dest: podindex_inv_stored split: option.splits)
  moreover have "gm_get (ipToPod pi) ip = Some n \<longleftrightarrow> IP pod = ip" if "gm_get (pods pi) n = Some pod" for n
    using podindex_inv_rev [OF assms(1), of ip n] rev_completeD [OF assms(2) that] that by auto
  ultimately show ?thesis
    using assms(1) by (auto simp: set_PodIndex_GetAll)
qed

lemma GetAll_unique_ip:
  assumes "podindex_inv pi" and "rev_complete pi"
    and "p \<in> set (PodIndex_GetAll pi)" and "q \<in> set (PodIndex_GetAll pi)" and "IP p = IP q"
  shows "p = q"
proof -
  obtain n m where n: "gm_get (pods pi) n = Some p" and m: "gm_get (pods pi) m = Some q"
    using assms by (auto simp: set_PodIndex_GetAll)
  with rev_complete_unique [OF assms(2) n m assms(5)] show ?thesis by simp
qed

text \<open>
  The bridge between the incremental operations and the specification: the entries of the pods
  outside \<open>ps\<close> are right, so recalculating the pods of \<open>ps\<close> makes all entries right.
\<close>

lemma coherent_recalc:
  assumes inv: "podindex_inv (podIndex bc)" and rc: "rev_complete (podIndex bc)"
    and ps: "set ps \<subseteq> set (PodIndex_GetAll (podIndex bc))"
    and rest: "\<And>pod. pod \<in> set (PodIndex_GetAll (podIndex bc)) \<Longrightarrow> pod \<notin> set ps \<Longrightarrow> IP pod \<noteq> [] \<Longrightarrow>
      gm_get (entries bc) (IP pod) = Some (entry_for (policyIndex bc) pod)"
    and none: "\<And>ip. expected (podIndex bc) (policyIndex bc) ip = None \<Longrightarrow>
      gm_get (entries bc) ip = None"
  shows "coherent (recalc_pods ps bc)"
  unfolding coherent_def recalc_pods_indexes
proof
  fix ip
  show "gm_get (entries (recalc_pods ps bc)) ip = expected (podIndex bc) (policyIndex bc) ip"
  proof (cases "expected (podIndex bc) (policyIndex bc) ip")
    case None
    have "IP pod \<noteq> ip" if "ip \<noteq> []" "pod \<in> set ps" for pod
      using that None ps GetByIP_pods [OF inv rc, of ip pod] by (auto simp: expected_def)
    then have "ip = [] \<or> ip \<notin> IP ` set ps" by auto
    then show ?thesis using none [OF None] None by (simp add: recalc_pods_other)
  next
    case (Some e)
    then obtain pod where pod: "pod \<in> set (PodIndex_GetAll (podIndex bc))" "IP pod = ip" "ip \<noteq> []"
      "e = entry_for (policyIndex bc) pod"
      by (auto simp: expected_def GetByIP_pods [OF inv rc] split: if_splits)
    have uniq: "\<forall>q \<in> set ps. IP q = IP pod \<longrightarrow> q = pod"
      using GetAll_unique_ip [OF inv rc] pod(1) ps by blast
    show ?thesis
    proof (cases "pod \<in> set ps")
      case True
      then show ?thesis using recalc_pods_hit [OF True _ uniq, of bc] pod Some by simp
    next
      case False
      with uniq pod have "ip \<notin> IP ` set ps" by auto
      then show ?thesis using rest [OF pod(1) False] pod Some by (simp add: recalc_pods_other)
    qed
  qed
qed

lemma coherent_RecalculateAll:
  assumes "cache_inv bc" and "rev_complete (podIndex bc)"
  shows "coherent (RecalculateAll bc)"
  unfolding RecalculateAll_def
  by (rule coherent_recalc) (use assms in \<open>auto simp: cache_inv_def\<close>)

section \<open>Incremental recalculation after a policy change\<close>

lemma coherentD:
  assumes "coherent bc" and "cache_inv bc" and "rev_complete (podIndex bc)"
    and "pod \<in> set (PodIndex_GetAll (podIndex bc))" and "IP pod \<noteq> []"
  shows "gm_get (entries bc) (IP pod) = Some (entry_for (policyIndex bc) pod)"
  using assms GetByIP_pods [of "podIndex bc" "IP pod" pod]
  by (simp add: coherent_def expected_def cache_inv_def)

text \<open>A policy that did not match a pod before and does not match it now leaves its domains alone.\<close>

lemma blocked_change:
  assumes "policyindex_inv pol" and "policyindex_inv pol'"
    and upd: "gm_get (policies pol') = (gm_get (policies pol))(n := x)"
    and old: "\<And>p. gm_get (policies pol) n = Some p \<Longrightarrow> \<not> LabelsContainAll labels (TargetSelector (Spec p))"
    and new: "\<And>p. x = Some p \<Longrightarrow> \<not> LabelsContainAll labels (TargetSelector (Spec p))"
  shows "blocked (set (PolicyIndex_GetAll pol')) labels = blocked (set (PolicyIndex_GetAll pol)) labels"
proof -
  have "(\<exists>m. gm_get (policies pol') m = Some p) \<longleftrightarrow> (\<exists>m. gm_get (policies pol) m = Some p)"
    if "LabelsContainAll labels (TargetSelector (Spec p))" for p
    unfolding upd using that old new by (metis fun_upd_other fun_upd_same)
  then show ?thesis
    using assms(1,2) by (auto simp: blocked_def set_PolicyIndex_GetAll)
qed

definition selects :: "DnsPolicy option \<Rightarrow> strmap \<Rightarrow> bool" where
  "selects p labels \<longleftrightarrow>
     (case p of None \<Rightarrow> False | Some p \<Rightarrow> LabelsContainAll labels (TargetSelector (Spec p)))"

lemma coherent_policy_update:
  assumes inv: "cache_inv bc" and coh: "coherent bc" and rc: "rev_complete (podIndex bc)"
    and pol': "policyindex_inv pol'"
      "gm_get (policies pol') = (gm_get (policies (policyIndex bc)))(n := x)"
    and ps: "set ps \<subseteq> set (PodIndex_GetAll (podIndex bc))"
    and cover: "\<And>pod. pod \<in> set (PodIndex_GetAll (podIndex bc)) \<Longrightarrow>
      selects (gm_get (policies (policyIndex bc)) n) (Labels pod) \<or> selects x (Labels pod) \<Longrightarrow>
      pod \<in> set ps"
  shows "coherent (recalc_pods ps (bc\<lparr>policyIndex := pol'\<rparr>))"
proof (rule coherent_recalc)
  fix pod
  assume pod: "pod \<in> set (PodIndex_GetAll (podIndex (bc\<lparr>policyIndex := pol'\<rparr>)))"
    "pod \<notin> set ps" "IP pod \<noteq> []"
  then have "blocked (set (PolicyIndex_GetAll pol')) (Labels pod) =
      blocked (set (PolicyIndex_GetAll (policyIndex bc))) (Labels pod)"
    using inv pol' cover [of pod] by (intro blocked_change) (auto simp: cache_inv_def selects_def)
  then show "gm_get (entries (bc\<lparr>policyIndex := pol'\<rparr>)) (IP pod) =
      Some (entry_for (policyIndex (bc\<lparr>policyIndex := pol'\<rparr>)) pod)"
    using coherentD [OF coh inv rc] pod by (simp add: entry_for_def)
next
  fix ip
  assume "expected (podIndex (bc\<lparr>policyIndex := pol'\<rparr>)) (policyIndex (bc\<lparr>policyIndex := pol'\<rparr>)) ip = None"
  then show "gm_get (entries (bc\<lparr>policyIndex := pol'\<rparr>)) ip = None"
    using coh by (auto simp: coherent_def expected_def split: if_splits)
qed (use inv rc ps in \<open>auto simp: cache_inv_def\<close>)

lemma Matching_nil [simp]: "nm_list sel = [] \<Longrightarrow> PodIndex_GetPodsMatchingSelector pi sel = []"
  by (simp add: PodIndex_GetPodsMatchingSelector_def)

lemma RecalculateForPolicy_eq:
  "RecalculateForPolicy bc sel = recalc_pods (PodIndex_GetPodsMatchingSelector (podIndex bc) sel) bc"
  by (simp add: RecalculateForPolicy_def)

lemma set_Matching:
  "podindex_inv pi \<Longrightarrow>
     set (PodIndex_GetPodsMatchingSelector pi sel) =
       {pod \<in> set (PodIndex_GetAll pi). LabelsContainAll (Labels pod) sel}"
  by (auto simp: PodIndex_Matching_eq)

lemma add_affected_ran:
  assumes "\<And>k v. m k = Some v \<Longrightarrow> IP v = k" and "inj_on IP (insert pod (ran m))"
  shows "ran (m(IP pod \<mapsto> pod)) = insert pod (ran m)"
proof (cases "m (IP pod)")
  case (Some q)
  then have "q = pod"
    using assms by (auto simp: inj_on_def ran_def)
  with Some show ?thesis by (auto simp: ran_def fun_upd_idem)
qed simp

lemma add_affected_set:
  assumes "gm_wf m" and "\<And>k v. gm_get m k = Some v \<Longrightarrow> IP v = k"
    and "inj_on IP (set ps \<union> ran (gm_get m))"
  shows "gm_wf (add_affected ps m) \<and> (\<forall>k v. gm_get (add_affected ps m) k = Some v \<longrightarrow> IP v = k) \<and>
    ran (gm_get (add_affected ps m)) = set ps \<union> ran (gm_get m)"
  using assms
proof (induction ps arbitrary: m)
  case (Cons pod ps)
  have inj: "inj_on IP (insert pod (ran (gm_get m)))"
    using Cons.prems(3) by (rule inj_on_subset) auto
  have ran: "ran (gm_get (gm_put (IP pod) pod m)) = insert pod (ran (gm_get m))"
    using add_affected_ran [OF Cons.prems(2) inj] by (simp add: gomap_simps)
  have inj': "inj_on IP (set ps \<union> ran (gm_get (gm_put (IP pod) pod m)))"
    using Cons.prems(3) by (simp add: ran)
  have key: "IP v = k" if "gm_get (gm_put (IP pod) pod m) k = Some v" for k v
    using that Cons.prems(2) by (auto simp: gomap_simps split: if_splits)
  have un: "set (pod # ps) \<union> ran (gm_get m) = set ps \<union> ran (gm_get (gm_put (IP pod) pod m))"
    by (simp add: ran)
  show ?case
    unfolding un add_affected.simps by (rule Cons.IH [OF gm_wf_put [OF Cons.prems(1)] key inj'])
qed simp

lemma RecalculateForPolicyChange_eq:
  assumes inv: "podindex_inv (podIndex bc)" and rc: "rev_complete (podIndex bc)"
  shows "\<exists>ps. RecalculateForPolicyChange bc old new = recalc_pods ps bc \<and>
    set ps = set (PodIndex_GetPodsMatchingSelector (podIndex bc) old) \<union>
             set (PodIndex_GetPodsMatchingSelector (podIndex bc) new)"
proof -
  let ?old = "PodIndex_GetPodsMatchingSelector (podIndex bc) old"
  let ?new = "PodIndex_GetPodsMatchingSelector (podIndex bc) new"
  let ?m1 = "add_affected ?old []" and ?m2 = "add_affected ?new (add_affected ?old [])"
  have eq: "RecalculateForPolicyChange bc old new = recalc_pods (map snd ?m2) bc"
    by (simp add: RecalculateForPolicyChange_def Let_def)
  have inj: "inj_on IP (set ?old \<union> set ?new)"
    using GetAll_unique_ip [OF inv rc] inv by (auto simp: inj_on_def set_Matching)
  then have "inj_on IP (set ?old)" by (rule inj_on_subset) auto
  then have m1: "gm_wf ?m1 \<and> (\<forall>k v. gm_get ?m1 k = Some v \<longrightarrow> IP v = k) \<and> ran (gm_get ?m1) = set ?old"
    using add_affected_set [of "[]" ?old] by simp
  then have "gm_wf ?m2 \<and> ran (gm_get ?m2) = set ?new \<union> set ?old"
    using add_affected_set [of ?m1 ?new] inj by (auto simp: Un_commute)
  then have "set (map snd ?m2) = set ?old \<union> set ?new"
    using ran_distinct [of ?m2] by simp blast
  with eq show ?thesis by blast
qed

section \<open>Reading the blocklist\<close>

lemma copyEntry_id [simp]: "copyEntry e = e"
  by (simp add: copyEntry_def go_copy_same_length)

lemma GetBlocklist_eq:
  "GetBlocklist bc = sort_key entryIP (filter (\<lambda>e. Domains e \<noteq> []) (map snd (entries bc)))"
  by (simp add: GetBlocklist_def filter_map comp_def case_prod_unfold)

lemma entries_ip: "cache_inv bc \<Longrightarrow> map entryIP (map snd (entries bc)) = map fst (entries bc)"
  by (auto simp: cache_inv_def entry_ok_def gm_get_iff)

lemma distinct_GetBlocklist: "cache_inv bc \<Longrightarrow> distinct (map entryIP (GetBlocklist bc))"
proof -
  assume inv: "cache_inv bc"
  then have "distinct (map entryIP (map snd (entries bc)))"
    unfolding entries_ip [OF inv] by (simp add: cache_inv_def)
  then have "distinct (map entryIP (filter (\<lambda>e. Domains e \<noteq> []) (map snd (entries bc))))"
    by (rule distinct_map_filter)
  then show ?thesis
    unfolding GetBlocklist_eq distinct_map set_sort distinct_sort .
qed

lemma set_GetBlocklist:
  assumes "cache_inv bc"
  shows "e \<in> set (GetBlocklist bc) \<longleftrightarrow>
    gm_get (entries bc) (entryIP e) = Some e \<and> Domains e \<noteq> []"
proof -
  have "e \<in> set (GetBlocklist bc) \<longleftrightarrow> (\<exists>ip. (ip, e) \<in> set (entries bc)) \<and> Domains e \<noteq> []"
    by (force simp: GetBlocklist_eq)
  also have "\<dots> \<longleftrightarrow> (\<exists>ip. gm_get (entries bc) ip = Some e) \<and> Domains e \<noteq> []"
    using assms by (simp add: gm_get_iff cache_inv_def)
  also have "(\<exists>ip. gm_get (entries bc) ip = Some e) \<longleftrightarrow> gm_get (entries bc) (entryIP e) = Some e"
    using assms unfolding cache_inv_def entry_ok_def by blast
  finally show ?thesis .
qed

lemma sorted_GetBlocklist: "sorted (map entryIP (GetBlocklist bc))"
  by (simp add: GetBlocklist_eq)

lemma GetBlocklist_cong:
  assumes "cache_inv bc" and "cache_inv bc'" and "gm_get (entries bc) = gm_get (entries bc')"
  shows "GetBlocklist bc = GetBlocklist bc'"
proof -
  have eq: "set (GetBlocklist bc) = set (GetBlocklist bc')"
    using assms(3) by (auto simp: set_GetBlocklist [OF assms(1)] set_GetBlocklist [OF assms(2)])
  have "inj_on entryIP (set (GetBlocklist bc) \<union> set (GetBlocklist bc'))"
    using distinct_GetBlocklist [OF assms(2)] by (simp add: eq distinct_map)
  then show ?thesis
    using eq assms(1,2)
    by (intro map_sorted_distinct_set_unique [where f = entryIP]) (simp_all add: distinct_GetBlocklist sorted_GetBlocklist)
qed

lemma coherent_GetBlocklist:
  assumes "cache_inv bc" and "rev_complete (podIndex bc)" and "coherent bc"
  shows "e \<in> set (GetBlocklist bc) \<longleftrightarrow>
    (\<exists>pod \<in> set (PodIndex_GetAll (podIndex bc)).
       IP pod \<noteq> [] \<and> e = entry_for (policyIndex bc) pod \<and> Domains e \<noteq> [])"
proof -
  have inv: "podindex_inv (podIndex bc)" using assms(1) by (simp add: cache_inv_def)
  have "e \<in> set (GetBlocklist bc) \<longleftrightarrow>
      expected (podIndex bc) (policyIndex bc) (entryIP e) = Some e \<and> Domains e \<noteq> []"
    using assms(3) by (simp add: set_GetBlocklist [OF assms(1)] coherent_def)
  also have "\<dots> \<longleftrightarrow> entryIP e \<noteq> [] \<and> Domains e \<noteq> [] \<and>
      (\<exists>pod. PodIndex_GetByIP (podIndex bc) (entryIP e) = Some pod \<and> entry_for (policyIndex bc) pod = e)"
    by (auto simp: expected_def)
  also have "\<dots> \<longleftrightarrow> (\<exists>pod \<in> set (PodIndex_GetAll (podIndex bc)).
       IP pod \<noteq> [] \<and> e = entry_for (policyIndex bc) pod \<and> Domains e \<noteq> [])"
    unfolding GetByIP_pods [OF inv assms(2)] by (metis entry_for_sel)
  finally show ?thesis .
qed

text \<open>What a client of the cache may rely on: the contract of \<open>GetBlocklist\<close>.\<close>

locale blocklist_source =
  fixes getBlocklist :: "'s \<Rightarrow> BlocklistEntry list"
    and inv :: "'s \<Rightarrow> bool"
  assumes sorted_ips: "inv s \<Longrightarrow> sorted (map entryIP (getBlocklist s))"
    and distinct_ips: "inv s \<Longrightarrow> distinct (map entryIP (getBlocklist s))"
    and entry: "inv s \<Longrightarrow> e \<in> set (getBlocklist s) \<Longrightarrow>
      entryIP e \<noteq> [] \<and> Domains e \<noteq> [] \<and> sorted (Domains e) \<and> distinct (Domains e)"
begin

lemma strictly_sorted_ips: "inv s \<Longrightarrow> sorted_wrt (<) (map entryIP (getBlocklist s))"
  using sorted_ips distinct_ips by (simp add: strict_sorted_iff)

lemma one_entry_per_ip:
  "inv s \<Longrightarrow> e \<in> set (getBlocklist s) \<Longrightarrow> e' \<in> set (getBlocklist s) \<Longrightarrow> entryIP e = entryIP e' \<Longrightarrow>
     e = e'"
  using distinct_ips by (auto simp: distinct_map inj_on_def)

text \<open>The served list is determined by the set of its entries: any other listing of them that is
  sorted by IP is the same list.\<close>

lemma served_list_unique:
  assumes "inv s" and "sorted (map entryIP xs)" and "distinct xs" and "set xs = set (getBlocklist s)"
  shows "xs = getBlocklist s"
proof -
  have inj: "inj_on entryIP (set (getBlocklist s))"
    using distinct_ips [OF assms(1)] by (simp add: distinct_map)
  then have "distinct (map entryIP xs)"
    using assms(3,4) by (simp add: distinct_map)
  with inj assms sorted_ips [OF assms(1)] distinct_ips [OF assms(1)] show ?thesis
    by (intro map_sorted_distinct_set_unique [where f = entryIP]) simp_all
qed

end

interpretation cacheb: blocklist_source GetBlocklist cache_inv
proof
  fix s e
  assume inv: "cache_inv s"
  then show "distinct (map entryIP (GetBlocklist s))" by (rule distinct_GetBlocklist)
  show "sorted (map entryIP (GetBlocklist s))" by (rule sorted_GetBlocklist)
  assume "e \<in> set (GetBlocklist s)"
  with inv show "entryIP e \<noteq> [] \<and> Domains e \<noteq> [] \<and> sorted (Domains e) \<and> distinct (Domains e)"
    using set_GetBlocklist [OF inv, of e] unfolding cache_inv_def entry_ok_def by blast
qed

section \<open>The operations keep the invariant\<close>

lemma cache_inv_New [wf_intros]:
  "podindex_inv pi \<Longrightarrow> policyindex_inv pol \<Longrightarrow> cache_inv (NewBlocklistCache pi pol)"
  by (simp add: cache_inv_def NewBlocklistCache_def)

lemma cache_inv_RemovePod [wf_intros]: "cache_inv bc \<Longrightarrow> cache_inv (RemovePod bc ip)"
  by (auto simp: cache_inv_def RemovePod_def gomap_simps split: if_splits)

lemma cache_inv_RecalculatePod [wf_intros]: "cache_inv bc \<Longrightarrow> cache_inv (RecalculatePod bc n)"
  by (auto simp: RecalculatePod_def intro: cache_inv_recalc1 split: option.split)

lemma cache_inv_RecalculateForPolicy [wf_intros]:
  "cache_inv bc \<Longrightarrow> cache_inv (RecalculateForPolicy bc sel)"
  by (simp add: RecalculateForPolicy_eq cache_inv_recalc_pods)

lemma cache_inv_RecalculateForPolicyChange [wf_intros]:
  "cache_inv bc \<Longrightarrow> cache_inv (RecalculateForPolicyChange bc old new)"
  by (simp add: RecalculateForPolicyChange_def Let_def cache_inv_recalc_pods)

lemma cache_inv_RecalculateAll [wf_intros]: "cache_inv bc \<Longrightarrow> cache_inv (RecalculateAll bc)"
  unfolding RecalculateAll_def by (rule cache_inv_recalc_pods) (simp add: cache_inv_def)

lemma cache_inv_podIndex [wf_intros]:
  "cache_inv bc \<Longrightarrow> podindex_inv pi \<Longrightarrow> cache_inv (bc\<lparr>podIndex := pi\<rparr>)"
  by (simp add: cache_inv_def)

lemma cache_inv_policyIndex [wf_intros]:
  "cache_inv bc \<Longrightarrow> policyindex_inv pol \<Longrightarrow> cache_inv (bc\<lparr>policyIndex := pol\<rparr>)"
  by (simp add: cache_inv_def)

lemma RecalculatePod_indexes [simp]:
  "podIndex (RecalculatePod bc n) = podIndex bc" "policyIndex (RecalculatePod bc n) = policyIndex bc"
  by (simp_all add: RecalculatePod_def split: option.split)

lemma RemovePod_indexes [simp]:
  "podIndex (RemovePod bc ip) = podIndex bc" "policyIndex (RemovePod bc ip) = policyIndex bc"
  by (simp_all add: RemovePod_def)

lemma RecalculateForPolicy_indexes [simp]:
  "podIndex (RecalculateForPolicy bc sel) = podIndex bc"
  "policyIndex (RecalculateForPolicy bc sel) = policyIndex bc"
  by (simp_all add: RecalculateForPolicy_eq)

lemma RecalculateForPolicyChange_indexes [simp]:
  "podIndex (RecalculateForPolicyChange bc old new) = podIndex bc"
  "policyIndex (RecalculateForPolicyChange bc old new) = policyIndex bc"
  by (simp_all add: RecalculateForPolicyChange_def Let_def)

lemma RecalculateAll_indexes [simp]:
  "podIndex (RecalculateAll bc) = podIndex bc" "policyIndex (RecalculateAll bc) = policyIndex bc"
  by (simp_all add: RecalculateAll_def)

lemma coherent_cong:
  assumes "coherent bc" and "coherent bc'" and "cache_inv bc" and "cache_inv bc'"
    and "podIndex bc = podIndex bc'" and "policyIndex bc = policyIndex bc'"
  shows "GetBlocklist bc = GetBlocklist bc'"
  using assms by (intro GetBlocklist_cong) (simp_all add: coherent_def)

section \<open>Coherence after each policy update\<close>

lemma fst_PolicyIndex_Upsert:
  "fst (PolicyIndex_Upsert pol p) =
     (case gm_get (policies pol) (policyKey p) of None \<Rightarrow> None | Some q \<Rightarrow> TargetSelector (Spec q))"
  by (simp add: PolicyIndex_Upsert_def Let_def)

lemma fst_PolicyIndex_Delete:
  "fst (PolicyIndex_Delete pol n) =
     (case gm_get (policies pol) n of None \<Rightarrow> None | Some q \<Rightarrow> TargetSelector (Spec q))"
  by (simp add: PolicyIndex_Delete_def split: option.split)

lemma selects_iff: "selects p labels \<longleftrightarrow>
    LabelsContainAll labels (case p of None \<Rightarrow> None | Some q \<Rightarrow> TargetSelector (Spec q))"
  by (simp add: selects_def split: option.split)

lemma coherent_Upsert_Change:
  assumes inv: "cache_inv bc" and coh: "coherent bc" and rc: "rev_complete (podIndex bc)"
    and wf: "policy_wf p"
  shows "coherent (RecalculateForPolicyChange
     (bc\<lparr>policyIndex := snd (PolicyIndex_Upsert (policyIndex bc) p)\<rparr>)
     (fst (PolicyIndex_Upsert (policyIndex bc) p)) (TargetSelector (Spec p)))"
proof -
  let ?pol = "policyIndex bc"
  let ?pol' = "snd (PolicyIndex_Upsert ?pol p)" and ?old = "fst (PolicyIndex_Upsert ?pol p)"
  have pinv: "podindex_inv (podIndex bc)" using inv by (simp add: cache_inv_def)
  obtain ps where ps: "RecalculateForPolicyChange (bc\<lparr>policyIndex := ?pol'\<rparr>) ?old (TargetSelector (Spec p))
        = recalc_pods ps (bc\<lparr>policyIndex := ?pol'\<rparr>)"
      "set ps = set (PodIndex_GetPodsMatchingSelector (podIndex bc) ?old) \<union>
         set (PodIndex_GetPodsMatchingSelector (podIndex bc) (TargetSelector (Spec p)))"
    using RecalculateForPolicyChange_eq [of "bc\<lparr>policyIndex := ?pol'\<rparr>" ?old] pinv rc by auto
  show ?thesis
    unfolding ps(1)
    using inv coh rc
  proof (rule coherent_policy_update)
    show "policyindex_inv ?pol'" using inv by (simp add: cache_inv_def policyindex_inv_Upsert)
    show "gm_get (policies ?pol') = (gm_get (policies ?pol))(policyKey p := Some p)"
      using wf by (simp add: gomap_simps deepcopy_policy_id)
    show "set ps \<subseteq> set (PodIndex_GetAll (podIndex bc))"
      using pinv ps(2) by (auto simp: set_Matching)
    fix pod
    assume "pod \<in> set (PodIndex_GetAll (podIndex bc))"
      "selects (gm_get (policies ?pol) (policyKey p)) (Labels pod) \<or> selects (Some p) (Labels pod)"
    then show "pod \<in> set ps"
      using pinv ps(2) by (auto simp: set_Matching selects_iff fst_PolicyIndex_Upsert)
  qed
qed

lemma coherent_Upsert_same:
  assumes inv: "cache_inv bc" and coh: "coherent bc" and rc: "rev_complete (podIndex bc)"
    and wf: "policy_wf p"
    and same: "\<And>labels. selects (gm_get (policies (policyIndex bc)) (policyKey p)) labels \<Longrightarrow>
      LabelsContainAll labels (TargetSelector (Spec p))"
  shows "coherent (RecalculateForPolicy
     (bc\<lparr>policyIndex := snd (PolicyIndex_Upsert (policyIndex bc) p)\<rparr>) (TargetSelector (Spec p)))"
proof -
  let ?pol = "policyIndex bc"
  have pinv: "podindex_inv (podIndex bc)" using inv by (simp add: cache_inv_def)
  show ?thesis
    unfolding RecalculateForPolicy_eq
    using inv coh rc
  proof (rule coherent_policy_update)
    show "policyindex_inv (snd (PolicyIndex_Upsert ?pol p))"
      using inv by (simp add: cache_inv_def policyindex_inv_Upsert)
    show "gm_get (policies (snd (PolicyIndex_Upsert ?pol p))) =
        (gm_get (policies ?pol))(policyKey p := Some p)"
      using wf by (simp add: gomap_simps deepcopy_policy_id)
  qed (use pinv same in \<open>auto simp: set_Matching selects_iff\<close>)
qed

lemma coherent_Delete:
  assumes inv: "cache_inv bc" and coh: "coherent bc" and rc: "rev_complete (podIndex bc)"
    and covers: "\<And>labels. selects (gm_get (policies (policyIndex bc)) n) labels \<Longrightarrow>
      LabelsContainAll labels sel"
  shows "coherent (RecalculateForPolicy
     (bc\<lparr>policyIndex := snd (PolicyIndex_Delete (policyIndex bc) n)\<rparr>) sel)"
proof -
  have pinv: "podindex_inv (podIndex bc)" using inv by (simp add: cache_inv_def)
  show ?thesis
    unfolding RecalculateForPolicy_eq
    using inv coh rc
  proof (rule coherent_policy_update)
    show "policyindex_inv (snd (PolicyIndex_Delete (policyIndex bc) n))"
      using inv by (simp add: cache_inv_def policyindex_inv_Delete)
    show "gm_get (policies (snd (PolicyIndex_Delete (policyIndex bc) n))) =
        (gm_get (policies (policyIndex bc)))(n := None)" by simp
  qed (use pinv covers in \<open>auto simp: set_Matching selects_iff [of None]\<close>)
qed

end
