(* ===== verification/Cache_Properties.thy ===== *)
theory Cache_Properties
  imports Blocklist_Cache
begin

text \<open>
  The properties of the blocklist cache on its own: what one recalculation computes, that the
  incremental operations agree with a full recomputation, what \<open>GetBlocklist\<close> returns, and where
  the result depends on the iteration order of a Go map and where it does not.
\<close>

section \<open>Sample states\<close>

definition web :: NamespacedName where
  "web = NamespacedName ''default'' ''web''"

definition db :: NamespacedName where
  "db = NamespacedName ''default'' ''db''"

definition pod_backend :: PodInfo where
  "pod_backend = \<lparr>IP = ''10.0.0.5'', Labels = Some [(''app'', ''backend'')],
     Namespace = ''default'', Name = ''db''\<rparr>"

definition sample_policies :: PolicyIndex where
  "sample_policies = snd (PolicyIndex_Upsert NewPolicyIndex sample_policy)"

definition sample_pods :: PodIndex where
  "sample_pods = PodIndex_Upsert NewPodIndex web pod_frontend"

definition sample_cache :: BlocklistCache where
  "sample_cache = RecalculateAll (NewBlocklistCache sample_pods sample_policies)"

lemma stored_ok_frontend [simp]: "stored_ok pod_frontend"
  by (simp add: stored_ok_def pod_frontend_def)

lemma sample_policy_wf [simp]: "policy_wf sample_policy"
  by (simp add: sample_policy_def spec_wf_def)

lemma sample_pods_inv [simp]: "podindex_inv sample_pods" "rev_complete sample_pods"
proof -
  have "ip_free NewPodIndex web (IP pod_frontend)" by (simp add: ip_free_def NewPodIndex_def)
  then show "podindex_inv sample_pods" "rev_complete sample_pods"
    by (simp_all add: sample_pods_def podindex_inv_Upsert rev_complete_Upsert)
qed

lemma sample_policies_inv [simp]: "policyindex_inv sample_policies"
  by (simp add: sample_policies_def policyindex_inv_Upsert)

lemma sample_cache_ok [simp]:
  "cache_inv sample_cache" "coherent sample_cache" "rev_complete (podIndex sample_cache)"
  "podIndex sample_cache = sample_pods" "policyIndex sample_cache = sample_policies"
proof -
  have inv: "cache_inv (NewBlocklistCache sample_pods sample_policies)"
    by (simp add: cache_inv_New)
  then show "cache_inv sample_cache" "coherent sample_cache"
    by (simp_all add: sample_cache_def cache_inv_RecalculateAll coherent_RecalculateAll
        NewBlocklistCache_def)
qed (simp_all add: sample_cache_def NewBlocklistCache_def)

lemma sample_pods_eq:
  "sample_pods = \<lparr>pods = [(web, pod_frontend)], ipToPod = [(''10.0.0.5'', web)]\<rparr>"
  by (simp add: sample_pods_def PodIndex_Upsert_def NewPodIndex_def pod_frontend_def copyPodInfo_def)

lemma sample_policies_eq:
  "sample_policies = \<lparr>policies = [(NamespacedName ''default'' ''block-ads'', sample_policy)]\<rparr>"
  by (simp add: sample_policies_def PolicyIndex_Upsert_def NewPolicyIndex_def deepcopy_policy_id
      policyKey_def) (simp add: sample_policy_def)

section \<open>What a recalculation computes\<close>

text \<open>
  C9: recalculating a pod that is indexed with an IP stores, under that IP, the alphabetically
  sorted list without duplicates of exactly the domains blocked by the indexed policies whose
  non-empty selector is contained in the pod's labels; every other entry of the cache is unchanged.
\<close>

theorem RecalculatePod_computes_blocked_domains:
  assumes "PodIndex_Get (podIndex bc) n = Some pod" and "IP pod \<noteq> []"
  shows "\<exists>ds. gm_get (entries (RecalculatePod bc n)) =
      (gm_get (entries bc))(IP pod \<mapsto> \<lparr>entryIP = IP pod, Domains = ds\<rparr>) \<and>
    sorted ds \<and> distinct ds \<and>
    (\<forall>d. d \<in> set ds \<longleftrightarrow>
      (\<exists>p \<in> set (PolicyIndex_GetAll (policyIndex bc)).
         LabelsContainAll (Labels pod) (TargetSelector (Spec p)) \<and>
         d \<in> set (sl_list (BlockList (Spec p)))))"
proof (intro exI conjI allI)
  let ?B = "blocked (set (PolicyIndex_GetAll (policyIndex bc))) (Labels pod)"
  show "gm_get (entries (RecalculatePod bc n)) =
      (gm_get (entries bc))(IP pod \<mapsto> \<lparr>entryIP = IP pod, Domains = sorted_list_of_set ?B\<rparr>)"
    using assms by (simp add: RecalculatePod_def recalculatePodInternal_eq entry_for_def gomap_simps)
  show "d \<in> set (sorted_list_of_set ?B) \<longleftrightarrow>
      (\<exists>p \<in> set (PolicyIndex_GetAll (policyIndex bc)).
         LabelsContainAll (Labels pod) (TargetSelector (Spec p)) \<and>
         d \<in> set (sl_list (BlockList (Spec p))))" for d
    unfolding set_sorted_list_of_set [OF finite_blocked] by (simp add: blocked_def)
qed simp_all

theorem RecalculatePod_computes_blocked_domains_witness:
  "\<exists>ds. gm_get (entries (RecalculatePod (NewBlocklistCache sample_pods sample_policies) web)) =
      [''10.0.0.5'' \<mapsto> \<lparr>entryIP = ''10.0.0.5'', Domains = ds\<rparr>] \<and>
    set ds = {''a.ads.com'', ''b.ads.com''}"
proof -
  let ?bc = "NewBlocklistCache sample_pods sample_policies"
  have get: "PodIndex_Get (podIndex ?bc) web = Some pod_frontend"
    by (simp add: NewBlocklistCache_def sample_pods_eq PodIndex_Get_def)
  have ip: "IP pod_frontend \<noteq> []" by (simp add: pod_frontend_def)
  have all: "PolicyIndex_GetAll (policyIndex ?bc) = [sample_policy]"
    by (simp add: NewBlocklistCache_def sample_policies_eq PolicyIndex_GetAll_def deepcopy_policy_id)
  obtain ds where ds: "gm_get (entries (RecalculatePod ?bc web)) =
      (gm_get (entries ?bc))(IP pod_frontend \<mapsto> \<lparr>entryIP = IP pod_frontend, Domains = ds\<rparr>)"
    and "\<forall>d. d \<in> set ds \<longleftrightarrow> (\<exists>p \<in> set (PolicyIndex_GetAll (policyIndex ?bc)).
         LabelsContainAll (Labels pod_frontend) (TargetSelector (Spec p)) \<and>
         d \<in> set (sl_list (BlockList (Spec p))))"
    using RecalculatePod_computes_blocked_domains [OF get ip] by blast
  then have "set ds = {''a.ads.com'', ''b.ads.com''}"
    unfolding all by (auto simp: LabelsContainAll_def sample_policy_def pod_frontend_def)
  then show ?thesis using ds by (auto simp: NewBlocklistCache_def pod_frontend_def)
qed

section \<open>Incremental recalculation equals full recalculation\<close>


definition moved_policy :: DnsPolicy where
  "moved_policy = sample_policy\<lparr>Spec := (Spec sample_policy)\<lparr>TargetSelector := Some [(''app'', ''backend'')]\<rparr>\<rparr>"


text \<open>
  After a policy has been deleted from the index, recalculating only the pods that match the
  selector that \<open>Delete\<close> returns makes the cache serve the same blocklist as recalculating every
  pod from scratch.
\<close>

theorem incremental_policy_delete_equals_full:
  fixes bc :: BlocklistCache
  assumes "cache_inv bc" and "coherent bc" and "rev_complete (podIndex bc)"
    and "(old, pol') = PolicyIndex_Delete (policyIndex bc) n"
    and "bc' = bc\<lparr>policyIndex := pol'\<rparr>"
  shows "GetBlocklist (RecalculateForPolicy bc' old) = GetBlocklist (RecalculateAll bc')"
proof -
  have old: "old = fst (PolicyIndex_Delete (policyIndex bc) n)"
    and pol': "pol' = snd (PolicyIndex_Delete (policyIndex bc) n)"
    using assms(4) by (simp_all add: prod_eq_iff)
  have inv: "cache_inv bc'"
    using assms(1) by (simp add: assms(5) pol' cache_inv_def policyindex_inv_Delete)
  have "coherent (RecalculateForPolicy bc' old)"
    unfolding assms(5) pol' using assms(1-3)
    by (rule coherent_Delete) (simp add: old selects_iff fst_PolicyIndex_Delete)
  then show ?thesis
    using coherent_RecalculateAll [OF inv] assms(3,5) inv
    by (intro coherent_cong) (auto intro: wf_intros)
qed

theorem incremental_policy_delete_equals_full_witness:
  "GetBlocklist (RecalculateForPolicy
     (sample_cache\<lparr>policyIndex := snd (PolicyIndex_Delete sample_policies (policyKey sample_policy))\<rparr>)
     (fst (PolicyIndex_Delete sample_policies (policyKey sample_policy)))) =
   GetBlocklist (RecalculateAll
     (sample_cache\<lparr>policyIndex := snd (PolicyIndex_Delete sample_policies (policyKey sample_policy))\<rparr>))"
  using incremental_policy_delete_equals_full [OF sample_cache_ok(1-3), of
      "fst (PolicyIndex_Delete sample_policies (policyKey sample_policy))"
      "snd (PolicyIndex_Delete sample_policies (policyKey sample_policy))" "policyKey sample_policy"]
  by simp

section \<open>What is served\<close>

lemma served_iff:
  assumes "cache_inv bc" and "rev_complete (podIndex bc)" and "coherent bc"
  shows "(\<exists>e \<in> set (GetBlocklist bc). entryIP e = ip \<and> d \<in> set (Domains e)) \<longleftrightarrow>
    (\<exists>n pod m p. PodIndex_Get (podIndex bc) n = Some pod \<and> IP pod = ip \<and> ip \<noteq> [] \<and>
      PolicyIndex_Get (policyIndex bc) m = Some p \<and> nm_list (TargetSelector (Spec p)) \<noteq> [] \<and>
      nm_get (TargetSelector (Spec p)) \<subseteq>\<^sub>m nm_get (Labels pod) \<and>
      d \<in> set (sl_list (BlockList (Spec p))))"
proof -
  have inv: "podindex_inv (podIndex bc)" "policyindex_inv (policyIndex bc)"
    using assms(1) by (simp_all add: cache_inv_def)
  have "(\<exists>e \<in> set (GetBlocklist bc). entryIP e = ip \<and> d \<in> set (Domains e)) \<longleftrightarrow>
      (\<exists>pod \<in> set (PodIndex_GetAll (podIndex bc)). IP pod = ip \<and> ip \<noteq> [] \<and>
         d \<in> blocked (set (PolicyIndex_GetAll (policyIndex bc))) (Labels pod))"
    unfolding Bex_def coherent_GetBlocklist [OF assms] by (fastforce simp: entry_for_def)
  also have "\<dots> \<longleftrightarrow> (\<exists>n pod m p. PodIndex_Get (podIndex bc) n = Some pod \<and> IP pod = ip \<and> ip \<noteq> [] \<and>
      PolicyIndex_Get (policyIndex bc) m = Some p \<and> LabelsContainAll (Labels pod) (TargetSelector (Spec p)) \<and>
      d \<in> set (sl_list (BlockList (Spec p))))"
    using inv unfolding blocked_def Bex_def
    by (auto simp: set_PodIndex_GetAll set_PolicyIndex_GetAll PodIndex_Get_eq PolicyIndex_Get_eq)
  also have "\<dots> \<longleftrightarrow> (\<exists>n pod m p. PodIndex_Get (podIndex bc) n = Some pod \<and> IP pod = ip \<and> ip \<noteq> [] \<and>
      PolicyIndex_Get (policyIndex bc) m = Some p \<and> nm_list (TargetSelector (Spec p)) \<noteq> [] \<and>
      nm_get (TargetSelector (Spec p)) \<subseteq>\<^sub>m nm_get (Labels pod) \<and>
      d \<in> set (sl_list (BlockList (Spec p))))"
  proof -
    have "nm_wf (TargetSelector (Spec p))" if "PolicyIndex_Get (policyIndex bc) m = Some p" for m p
      using that inv(2) by (auto simp: PolicyIndex_Get_eq policyindex_inv_def spec_wf_def)
    then show ?thesis by (metis LabelsContainAll_map_le)
  qed
  finally show ?thesis .
qed



section \<open>Iteration order\<close>

definition same_indexes :: "BlocklistCache \<Rightarrow> BlocklistCache \<Rightarrow> bool" where
  "same_indexes bc bc' \<longleftrightarrow>
     gm_same (pods (podIndex bc)) (pods (podIndex bc')) \<and>
     gm_same (ipToPod (podIndex bc)) (ipToPod (podIndex bc')) \<and>
     gm_same (policies (policyIndex bc)) (policies (policyIndex bc'))"

lemma expected_same_indexes:
  assumes "same_indexes bc bc'" and "cache_inv bc" and "cache_inv bc'"
  shows "expected (podIndex bc) (policyIndex bc) = expected (podIndex bc') (policyIndex bc')"
proof -
  have inv: "podindex_inv (podIndex bc)" "policyindex_inv (policyIndex bc)"
    "policyindex_inv (policyIndex bc')"
    using assms(2,3) by (simp_all add: cache_inv_def)
  have p: "gm_get (pods (podIndex bc)) = gm_get (pods (podIndex bc'))"
    "gm_get (ipToPod (podIndex bc)) = gm_get (ipToPod (podIndex bc'))"
    "gm_get (policies (policyIndex bc)) = gm_get (policies (policyIndex bc'))"
    using assms(1) inv
    by (simp_all add: same_indexes_def gm_same_get podindex_inv_def policyindex_inv_def)
  then have "set (PolicyIndex_GetAll (policyIndex bc)) = set (PolicyIndex_GetAll (policyIndex bc'))"
    using inv by (auto simp: set_PolicyIndex_GetAll)
  then have "entry_for (policyIndex bc) = entry_for (policyIndex bc')"
    by (simp add: fun_eq_iff entry_for_def)
  moreover have "PodIndex_GetByIP (podIndex bc) = PodIndex_GetByIP (podIndex bc')"
    using p by (auto simp: fun_eq_iff PodIndex_GetByIP_def split: option.split)
  ultimately show ?thesis by (intro ext) (simp add: expected_def)
qed


definition pod_other :: PodInfo where
  "pod_other = pod_backend\<lparr>IP := ''10.0.0.6''\<rparr>"

abbreviation two_pods :: "NamespacedName \<times> PodInfo \<Rightarrow> NamespacedName \<times> PodInfo \<Rightarrow> PodIndex" where
  "two_pods x y \<equiv> pod_run [OpUpsert x, OpUpsert y]"


text \<open>
  C25: when two indexed pods share an IP and the policies block different domains for them, the
  blocklist served after a full recalculation depends on the order in which the pods are visited,
  which Go does not determine: the entry of the shared IP is the one of the pod visited last.
\<close>

theorem shared_ip_makes_blocklist_order_dependent:
  assumes "a \<noteq> b" and "IP i = IP j" and "IP i \<noteq> []" and "podinfo_ok i" and "podinfo_ok j"
    and "blocked (set (PolicyIndex_GetAll pol)) (Labels i) \<noteq>
         blocked (set (PolicyIndex_GetAll pol)) (Labels j)"
  shows "gm_same (pods (two_pods (a, i) (b, j))) (pods (two_pods (b, j) (a, i))) \<and>
    GetBlocklist (RecalculateAll (NewBlocklistCache (two_pods (a, i) (b, j)) pol)) \<noteq>
    GetBlocklist (RecalculateAll (NewBlocklistCache (two_pods (b, j) (a, i)) pol))"
proof -
  have p: "pods (two_pods (x, q) (y, r)) = [(x, copyPodInfo q), (y, copyPodInfo r)]" if "x \<noteq> y"
    for x y q r using that by (simp add: NewPodIndex_def)
  have last: "entries (RecalculateAll (NewBlocklistCache (two_pods (x, q) (y, r)) pol)) =
      [(IP r, entry_for pol (copyPodInfo r))]" if "x \<noteq> y" "IP q = IP r" "IP r \<noteq> []" for x y q r
  proof -
    have "PodIndex_GetAll (two_pods (x, q) (y, r)) = [copyPodInfo q, copyPodInfo r]"
      using p [OF that(1), of q r] by (simp add: PodIndex_GetAll_def)
    then show ?thesis
      using that by (simp add: RecalculateAll_def NewBlocklistCache_def recalculatePodInternal_eq)
  qed
  have "blocked P (Labels (copyPodInfo q)) = blocked P (Labels q)" if "podinfo_ok q" for P q
    using that by (simp add: blocked_def LabelsContainAll_set podinfo_ok_def)
  then have "Domains (entry_for pol (copyPodInfo i)) = sorted_list_of_set
        (blocked (set (PolicyIndex_GetAll pol)) (Labels i))"
      "Domains (entry_for pol (copyPodInfo j)) = sorted_list_of_set
        (blocked (set (PolicyIndex_GetAll pol)) (Labels j))"
    using assms(4,5) by (simp_all add: entry_for_def del: copyPodInfo_sel(4))
  then have "Domains (entry_for pol (copyPodInfo i)) \<noteq> Domains (entry_for pol (copyPodInfo j))"
    using assms(6) finite_blocked by (metis set_sorted_list_of_set)
  then show ?thesis
    using p [OF assms(1), of i j] p [of b a j i] last [of a b i j] last [of b a j i] assms(1-3)
    by (auto simp: gm_same_def GetBlocklist_eq)
qed

theorem shared_ip_makes_blocklist_order_dependent_witness:
  "GetBlocklist (RecalculateAll (NewBlocklistCache (two_pods (web, pod_frontend) (db, pod_backend)) sample_policies)) \<noteq>
   GetBlocklist (RecalculateAll (NewBlocklistCache (two_pods (db, pod_backend) (web, pod_frontend)) sample_policies))"
proof -
  have all: "PolicyIndex_GetAll sample_policies = [sample_policy]"
    by (simp add: sample_policies_eq PolicyIndex_GetAll_def deepcopy_policy_id)
  have "''a.ads.com'' \<in> blocked {sample_policy} (Labels pod_frontend)"
    "''a.ads.com'' \<notin> blocked {sample_policy} (Labels pod_backend)"
    by (simp_all add: blocked_def LabelsContainAll_def sample_policy_def pod_frontend_def pod_backend_def)
  then have "blocked (set (PolicyIndex_GetAll sample_policies)) (Labels pod_frontend) \<noteq>
      blocked (set (PolicyIndex_GetAll sample_policies)) (Labels pod_backend)"
    unfolding all by auto
  then show ?thesis
    using shared_ip_makes_blocklist_order_dependent [of web db pod_frontend pod_backend sample_policies]
    by (simp add: web_def db_def pod_frontend_def pod_backend_def podinfo_ok_def)
qed

section \<open>Well-formedness after any calls\<close>

text \<open>Every method that changes the cache or one of the indexes it points to.\<close>

datatype cache_call =
    PodUpsertCall NamespacedName PodInfo
  | PodDeleteCall NamespacedName
  | PolicyUpsertCall DnsPolicy
  | PolicyDeleteCall NamespacedName
  | RecalculatePodCall NamespacedName
  | RemovePodCall string
  | RecalculateForPolicyCall strmap
  | RecalculateForPolicyChangeCall strmap strmap
  | RecalculateAllCall

fun cache_step :: "cache_call \<Rightarrow> BlocklistCache \<Rightarrow> BlocklistCache" where
  "cache_step (PodUpsertCall n info) bc = bc\<lparr>podIndex := PodIndex_Upsert (podIndex bc) n info\<rparr>"
| "cache_step (PodDeleteCall n) bc = bc\<lparr>podIndex := PodIndex_Delete (podIndex bc) n\<rparr>"
| "cache_step (PolicyUpsertCall p) bc = bc\<lparr>policyIndex := snd (PolicyIndex_Upsert (policyIndex bc) p)\<rparr>"
| "cache_step (PolicyDeleteCall n) bc = bc\<lparr>policyIndex := snd (PolicyIndex_Delete (policyIndex bc) n)\<rparr>"
| "cache_step (RecalculatePodCall n) bc = RecalculatePod bc n"
| "cache_step (RemovePodCall ip) bc = RemovePod bc ip"
| "cache_step (RecalculateForPolicyCall sel) bc = RecalculateForPolicy bc sel"
| "cache_step (RecalculateForPolicyChangeCall old new) bc = RecalculateForPolicyChange bc old new"
| "cache_step RecalculateAllCall bc = RecalculateAll bc"

lemma cache_inv_step:
  assumes "cache_inv bc"
  shows "cache_inv (cache_step c bc)"
proof -
  have "podindex_inv (podIndex bc)" "policyindex_inv (policyIndex bc)" using assms by (simp_all add: cache_inv_def)
  with assms show ?thesis
    by (cases c) (auto intro!: wf_intros simp: podindex_inv_Delete policyindex_inv_Upsert policyindex_inv_Delete)
qed

lemma cache_inv_steps: "cache_inv bc \<Longrightarrow> cache_inv (fold cache_step cs bc)"
  by (induction cs arbitrary: bc) (simp_all add: cache_inv_step)

text \<open>
  C18: whatever methods are called on the indexes and the cache, in whatever order and with whatever
  arguments, the state stays well-formed: the reverse map only points to indexed pods with that IP,
  indexed pods have labels, and an entry is stored under its own IP, which is not empty, with domains
  in order and without duplicates; the served list is strictly ordered by IP, without empty entries,
  and never longer than the cache.
\<close>

theorem any_calls_keep_cache_well_formed:
  fixes cs :: "cache_call list"
  defines "bc \<equiv> fold cache_step cs (NewBlocklistCache NewPodIndex NewPolicyIndex)"
  shows "(\<forall>ip n. gm_get (ipToPod (podIndex bc)) ip = Some n \<longrightarrow>
      (\<exists>info. gm_get (pods (podIndex bc)) n = Some info \<and> IP info = ip \<and> Labels info \<noteq> None)) \<and>
    (\<forall>ip e. gm_get (entries bc) ip = Some e \<longrightarrow>
      ip \<noteq> [] \<and> entryIP e = ip \<and> sorted (Domains e) \<and> distinct (Domains e)) \<and>
    sorted_wrt (\<lambda>a b. entryIP a < entryIP b) (GetBlocklist bc) \<and>
    (\<forall>e \<in> set (GetBlocklist bc). Domains e \<noteq> []) \<and> length (GetBlocklist bc) \<le> BlocklistCache_Size bc"
proof -
  have inv: "cache_inv bc" unfolding bc_def by (intro cache_inv_steps wf_intros)
  then have pods: "podindex_inv (podIndex bc)" by (simp add: cache_inv_def)
  have "\<exists>info. gm_get (pods (podIndex bc)) n = Some info \<and> IP info = ip \<and> Labels info \<noteq> None"
    if "gm_get (ipToPod (podIndex bc)) ip = Some n" for ip n
    using podindex_inv_rev [OF pods that] podindex_inv_stored [OF pods] unfolding stored_ok_def by blast
  moreover have "ip \<noteq> [] \<and> entryIP e = ip \<and> sorted (Domains e) \<and> distinct (Domains e)"
    if "gm_get (entries bc) ip = Some e" for ip e
    using inv that unfolding cache_inv_def entry_ok_def by blast
  moreover have "sorted_wrt (\<lambda>a b. entryIP a < entryIP b) (GetBlocklist bc)"
    using cacheb.strictly_sorted_ips [OF inv] by (simp add: sorted_wrt_map)
  moreover have "length (GetBlocklist bc) \<le> BlocklistCache_Size bc"
    using length_filter_le [of "\<lambda>e. Domains e \<noteq> []" "map snd (entries bc)"]
    by (simp add: GetBlocklist_eq BlocklistCache_Size_def)
  ultimately show ?thesis using set_GetBlocklist [OF inv] by blast
qed

theorem any_calls_keep_cache_well_formed_witness:
  "\<exists>e. gm_get (entries (fold cache_step
      [PolicyUpsertCall sample_policy, PodUpsertCall web pod_frontend, RecalculatePodCall web, PodDeleteCall web]
      (NewBlocklistCache NewPodIndex NewPolicyIndex))) ''10.0.0.5'' = Some e \<and>
    entryIP e = ''10.0.0.5'' \<and> sorted (Domains e) \<and> distinct (Domains e)"
proof -
  let ?cs = "[PolicyUpsertCall sample_policy, PodUpsertCall web pod_frontend, RecalculatePodCall web, PodDeleteCall web]"
  have "\<exists>e. gm_get (entries (fold cache_step ?cs (NewBlocklistCache NewPodIndex NewPolicyIndex))) ''10.0.0.5'' = Some e"
    by (simp add: NewBlocklistCache_def RecalculatePod_def PodIndex_Get_def PodIndex_Upsert_def NewPodIndex_def
        recalculatePodInternal_eq pod_frontend_def copyPodInfo_def)
  then obtain e where e: "gm_get (entries (fold cache_step ?cs (NewBlocklistCache NewPodIndex NewPolicyIndex))) ''10.0.0.5'' = Some e" ..
  with any_calls_keep_cache_well_formed [of ?cs] have "entryIP e = ''10.0.0.5'' \<and> sorted (Domains e) \<and> distinct (Domains e)"
    by blast
  with e show ?thesis by blast
qed

end
