(* ===== verification/Policy_Reconciler.thy ===== *)
theory Policy_Reconciler
  imports Cache_Properties
begin

text \<open>
  \<^verbatim>\<open>controller/internal/controller/dnspolicy_controller.go\<close>: the reconciler of DnsPolicy objects.
  The Kubernetes client, the controller-runtime finalizer helpers and the clock are parameters,
  the fields of \<open>PolicyEnv\<close>; \<open>finalizer_laws\<close> states what the helpers are documented to do. A call
  of \<open>Reconcile\<close> returns the error (if any), the new shared state and the effects on the outside
  in the order in which they happen: recorded events, updates of the object and of its status.
  \<^verbatim>\<open>ctrl.Result{}\<close>, the other result of the Go function, is the same in every branch.
\<close>

datatype go_error = NotFound (errText: string) | OtherError (errText: string)

record PolicyEnv =
  getPolicy :: "NamespacedName \<Rightarrow> go_error + DnsPolicy"
  updatePolicy :: "DnsPolicy \<Rightarrow> go_error option"
  updateStatus :: "DnsPolicy \<Rightarrow> go_error option"
  timeIsZero :: "Time option \<Rightarrow> bool"
  containsFinalizer :: "string list \<Rightarrow> string \<Rightarrow> bool"
  addFinalizer :: "string list \<Rightarrow> string \<Rightarrow> string list"
  removeFinalizer :: "string list \<Rightarrow> string \<Rightarrow> string list"
  now :: Time

datatype effect =
    Event string string string
  | ApiUpdate DnsPolicy
  | ApiStatusUpdate DnsPolicy

type_synonym reconcile_result = "go_error option \<times> BlocklistCache \<times> effect list"

definition dnsPolicyFinalizer :: string where
  "dnsPolicyFinalizer = ''dns.dnspolicies.io/finalizer''"

section \<open>Operations\<close>

primrec selectorsEqual_loop :: "(string, string) gomap \<Rightarrow> strmap \<Rightarrow> bool" where
  "selectorsEqual_loop [] b = True"
| "selectorsEqual_loop (kv # rest) b =
     (case nm_get b (fst kv) of
        None \<Rightarrow> False
      | Some bv \<Rightarrow> (if bv \<noteq> snd kv then False else selectorsEqual_loop rest b))"

definition selectorsEqual :: "strmap \<Rightarrow> strmap \<Rightarrow> bool" where
  "selectorsEqual a b =
     (if nm_len a \<noteq> nm_len b then False else selectorsEqual_loop (nm_list a) b)"

text \<open>The search loop of \<open>updateCondition\<close>: whether the type was found, and the updated slice.\<close>

fun updateCondition_loop :: "Condition \<Rightarrow> Condition list \<Rightarrow> bool \<times> Condition list" where
  "updateCondition_loop condition [] = (False, [])"
| "updateCondition_loop condition (existing # rest) =
     (if Type existing = Type condition
      then (True, (if CondStatus existing \<noteq> CondStatus condition then condition else existing) # rest)
      else let (found, rest') = updateCondition_loop condition rest in (found, existing # rest'))"

definition updateCondition ::
  "PolicyEnv \<Rightarrow> DnsPolicy \<Rightarrow> string \<Rightarrow> string \<Rightarrow> string \<Rightarrow> string \<Rightarrow> DnsPolicy" where
  "updateCondition env policy conditionType status reason message =
     (let condition = \<lparr>Type = conditionType, CondStatus = status,
            CondObservedGeneration = Generation (ObjMeta policy), LastTransitionTime = now env,
            Reason = reason, Message = message\<rparr>;
          (found, conditions) = updateCondition_loop condition (sl_list (Conditions (Status policy)))
      in if found
         then policy\<lparr>Status := (Status policy)\<lparr>Conditions := Some conditions\<rparr>\<rparr>
         else policy\<lparr>Status := (Status policy)\<lparr>Conditions := Some (conditions @ [condition])\<rparr>\<rparr>)"

definition set_finalizers :: "DnsPolicy \<Rightarrow> string list \<Rightarrow> DnsPolicy" where
  "set_finalizers policy fs = policy\<lparr>ObjMeta := (ObjMeta policy)\<lparr>Finalizers := fs\<rparr>\<rparr>"

text \<open>The branch of \<open>Reconcile\<close> for an object that no longer exists.\<close>

definition reconcile_not_found :: "BlocklistCache \<Rightarrow> NamespacedName \<Rightarrow> reconcile_result" where
  "reconcile_not_found bc req =
     (let (oldSelector, idx) = PolicyIndex_Delete (policyIndex bc) req;
          bc1 = bc\<lparr>policyIndex := idx\<rparr>
      in (None,
          if oldSelector \<noteq> None \<and> nm_len oldSelector > 0 then RecalculateForPolicy bc1 oldSelector
          else bc1,
          []))"

text \<open>The branch for an object with a deletion timestamp.\<close>

definition reconcile_deleting ::
  "PolicyEnv \<Rightarrow> BlocklistCache \<Rightarrow> NamespacedName \<Rightarrow> DnsPolicy \<Rightarrow> reconcile_result" where
  "reconcile_deleting env bc req policy =
     (if containsFinalizer env (Finalizers (ObjMeta policy)) dnsPolicyFinalizer
      then let oldSelector = TargetSelector (Spec policy);
               bc1 = bc\<lparr>policyIndex := snd (PolicyIndex_Delete (policyIndex bc) req)\<rparr>;
               ev = Event ''Normal'' ''Deleted'' ''DnsPolicy removed from index'';
               bc2 = (if nm_len oldSelector > 0 then RecalculateForPolicy bc1 oldSelector else bc1);
               policy' = set_finalizers policy
                 (removeFinalizer env (Finalizers (ObjMeta policy)) dnsPolicyFinalizer)
           in (case updatePolicy env policy' of
                 Some err \<Rightarrow>
                   (Some err, bc2, [ev, ApiUpdate policy', Event ''Warning'' ''FinalizerRemovalFailed''
                      (''Failed to remove finalizer: '' @ errText err)])
               | None \<Rightarrow> (None, bc2, [ev, ApiUpdate policy']))
      else (None, bc, []))"

text \<open>The branch that adds the finalizer and returns.\<close>

definition reconcile_add_finalizer :: "PolicyEnv \<Rightarrow> BlocklistCache \<Rightarrow> DnsPolicy \<Rightarrow> reconcile_result" where
  "reconcile_add_finalizer env bc policy =
     (let policy' = set_finalizers policy
            (addFinalizer env (Finalizers (ObjMeta policy)) dnsPolicyFinalizer)
      in case updatePolicy env policy' of
           Some err \<Rightarrow>
             (Some err, bc, [ApiUpdate policy', Event ''Warning'' ''FinalizerAddFailed''
                (''Failed to add finalizer: '' @ errText err)])
         | None \<Rightarrow>
             (None, bc, [ApiUpdate policy', Event ''Normal'' ''FinalizerAdded''
                ''Finalizer added to DnsPolicy'']))"

text \<open>The last part: indexing, recalculating and updating the status.\<close>

definition reconcile_status :: "PolicyEnv \<Rightarrow> DnsPolicy \<Rightarrow> go_error option \<times> effect list" where
  "reconcile_status env policy =
     (if ObservedGeneration (Status policy) \<noteq> Generation (ObjMeta policy)
      then let policy1 = policy\<lparr>Status := (Status policy)\<lparr>ObservedGeneration := Generation (ObjMeta policy)\<rparr>\<rparr>;
               policy2 = updateCondition env policy1 ''Ready'' ''True'' ''Reconciled''
                 ''DnsPolicy successfully reconciled''
           in (case updateStatus env policy2 of
                 Some err \<Rightarrow> (Some err, [ApiStatusUpdate policy2, Event ''Warning'' ''StatusUpdateFailed''
                   (''Failed to update status: '' @ errText err)])
               | None \<Rightarrow> (None, [ApiStatusUpdate policy2, Event ''Normal'' ''Reconciled''
                   ''DnsPolicy successfully reconciled'']))
      else (None, []))"

definition reconcile_index :: "PolicyEnv \<Rightarrow> BlocklistCache \<Rightarrow> DnsPolicy \<Rightarrow> reconcile_result" where
  "reconcile_index env bc policy =
     (let (oldSelector, idx) = PolicyIndex_Upsert (policyIndex bc) policy;
          bc1 = bc\<lparr>policyIndex := idx\<rparr>;
          bc2 = (if oldSelector \<noteq> None \<and> \<not> selectorsEqual oldSelector (TargetSelector (Spec policy))
                 then RecalculateForPolicyChange bc1 oldSelector (TargetSelector (Spec policy))
                 else RecalculateForPolicy bc1 (TargetSelector (Spec policy)));
          (err, effs) = reconcile_status env policy
      in (err, bc2, Event ''Normal'' ''PolicyIndexed'' ''DnsPolicy successfully indexed'' # effs))"

text \<open>
  The branch for an empty selector. \<open>updateCondition\<close> writes the condition into the local copy of
  the object, which no later call of this branch sends to the API server.
\<close>

definition reconcile_invalid :: "PolicyEnv \<Rightarrow> BlocklistCache \<Rightarrow> DnsPolicy \<Rightarrow> reconcile_result" where
  "reconcile_invalid env bc policy =
     (let err = OtherError ''targetSelector cannot be empty'';
          policy' = updateCondition env policy ''Ready'' ''False'' ''InvalidSpec'' (errText err)
      in (Some err, bc, [Event ''Warning'' ''InvalidSpec'' ''TargetSelector cannot be empty'']))"

definition PolicyReconcile :: "PolicyEnv \<Rightarrow> BlocklistCache \<Rightarrow> NamespacedName \<Rightarrow> reconcile_result" where
  "PolicyReconcile env bc req =
     (case getPolicy env req of
        Inl (NotFound _) \<Rightarrow> reconcile_not_found bc req
      | Inl err \<Rightarrow> (Some err, bc, [])
      | Inr policy \<Rightarrow>
          if \<not> timeIsZero env (DeletionTimestamp (ObjMeta policy))
          then reconcile_deleting env bc req policy
          else if \<not> containsFinalizer env (Finalizers (ObjMeta policy)) dnsPolicyFinalizer
          then reconcile_add_finalizer env bc policy
          else if nm_len (TargetSelector (Spec policy)) = 0
          then reconcile_invalid env bc policy
          else reconcile_index env bc policy)"

section \<open>Comparing selectors\<close>

lemma selectorsEqual_loop_iff:
  "selectorsEqual_loop a b \<longleftrightarrow> (\<forall>(k, v) \<in> set a. nm_get b k = Some v)"
  by (induction a) (auto split: option.splits)

lemma selectorsEqual_iff:
  assumes "nm_wf a" and "nm_wf b"
  shows "selectorsEqual a b \<longleftrightarrow> nm_get a = nm_get b"
proof
  assume "selectorsEqual a b"
  then show "nm_get a = nm_get b"
    using assms gm_submap_card [of "nm_list a" "nm_list b"]
    by (simp add: selectorsEqual_def selectorsEqual_loop_iff split: if_splits)
next
  assume eq: "nm_get a = nm_get b"
  then have "set (nm_list a) = set (nm_list b)"
    using assms by (simp add: map_of_inject_set)
  then show "selectorsEqual a b"
    using assms gm_length_eq [OF assms eq]
    by (auto simp: selectorsEqual_def selectorsEqual_loop_iff gm_get_iff)
qed

section \<open>Invariant\<close>

definition env_ok :: "PolicyEnv \<Rightarrow> bool" where
  "env_ok env \<longleftrightarrow>
     (\<forall>req p. getPolicy env req = Inr p \<longrightarrow> policy_wf p \<and> policyKey p = req)"

definition finalizer_laws :: "PolicyEnv \<Rightarrow> bool" where
  "finalizer_laws env \<longleftrightarrow>
     (\<forall>fs f. (containsFinalizer env fs f \<longleftrightarrow> f \<in> set fs) \<and>
             set (addFinalizer env fs f) = insert f (set fs) \<and>
             set (removeFinalizer env fs f) = set fs - {f})"

abbreviation reconciled :: "PolicyEnv \<Rightarrow> BlocklistCache \<Rightarrow> NamespacedName \<Rightarrow> BlocklistCache" where
  "reconciled env bc req \<equiv> fst (snd (PolicyReconcile env bc req))"

abbreviation reconcile_effects :: "PolicyEnv \<Rightarrow> BlocklistCache \<Rightarrow> NamespacedName \<Rightarrow> effect list" where
  "reconcile_effects env bc req \<equiv> snd (snd (PolicyReconcile env bc req))"

lemmas reconcile_branches =
  reconcile_not_found_def reconcile_deleting_def reconcile_add_finalizer_def reconcile_invalid_def
  reconcile_index_def

lemma recalc_if [simp]:
  "(if nm_len sel > 0 then RecalculateForPolicy bc sel else bc) = RecalculateForPolicy bc sel"
  "(if sel \<noteq> None \<and> nm_len sel > 0 then RecalculateForPolicy bc sel else bc) = RecalculateForPolicy bc sel"
  by (auto simp: RecalculateForPolicy_def)

text \<open>The new state of each branch.\<close>

lemma state_not_found:
  "fst (snd (reconcile_not_found bc req)) =
     RecalculateForPolicy (bc\<lparr>policyIndex := snd (PolicyIndex_Delete (policyIndex bc) req)\<rparr>)
       (fst (PolicyIndex_Delete (policyIndex bc) req))"
  by (simp only: reconcile_not_found_def Let_def case_prod_unfold fst_conv snd_conv recalc_if)

lemma state_deleting:
  "fst (snd (reconcile_deleting env bc req p)) =
     (if containsFinalizer env (Finalizers (ObjMeta p)) dnsPolicyFinalizer
      then RecalculateForPolicy (bc\<lparr>policyIndex := snd (PolicyIndex_Delete (policyIndex bc) req)\<rparr>)
        (TargetSelector (Spec p))
      else bc)"
  by (simp only: reconcile_deleting_def Let_def recalc_if) (simp split: option.split)

lemma state_add_finalizer: "fst (snd (reconcile_add_finalizer env bc p)) = bc"
  by (simp add: reconcile_add_finalizer_def Let_def split: option.split)

lemma state_invalid: "fst (snd (reconcile_invalid env bc p)) = bc"
  by (simp add: reconcile_invalid_def)

lemma state_index:
  "fst (snd (reconcile_index env bc p)) =
     (let old = fst (PolicyIndex_Upsert (policyIndex bc) p);
          bc1 = bc\<lparr>policyIndex := snd (PolicyIndex_Upsert (policyIndex bc) p)\<rparr>
      in if old \<noteq> None \<and> \<not> selectorsEqual old (TargetSelector (Spec p))
         then RecalculateForPolicyChange bc1 old (TargetSelector (Spec p))
         else RecalculateForPolicy bc1 (TargetSelector (Spec p)))"
  by (simp only: reconcile_index_def Let_def case_prod_unfold fst_conv snd_conv)

lemmas reconcile_states =
  state_not_found state_deleting state_add_finalizer state_invalid state_index

lemma cache_inv_delete_policy:
  "cache_inv bc \<Longrightarrow> cache_inv (bc\<lparr>policyIndex := snd (PolicyIndex_Delete (policyIndex bc) n)\<rparr>)"
  by (simp add: cache_inv_def policyindex_inv_Delete)

lemma cache_inv_upsert_policy:
  "cache_inv bc \<Longrightarrow> cache_inv (bc\<lparr>policyIndex := snd (PolicyIndex_Upsert (policyIndex bc) p)\<rparr>)"
  by (simp add: cache_inv_def policyindex_inv_Upsert)

lemma PolicyReconcile_cases:
  assumes "P (reconcile_not_found bc req)"
    and "\<And>err. P (Some err, bc, [])"
    and "\<And>p. getPolicy env req = Inr p \<Longrightarrow> \<not> timeIsZero env (DeletionTimestamp (ObjMeta p)) \<Longrightarrow>
      P (reconcile_deleting env bc req p)"
    and "\<And>p. getPolicy env req = Inr p \<Longrightarrow> P (reconcile_add_finalizer env bc p)"
    and "\<And>p. getPolicy env req = Inr p \<Longrightarrow> P (reconcile_invalid env bc p)"
    and "\<And>p. getPolicy env req = Inr p \<Longrightarrow> nm_list (TargetSelector (Spec p)) \<noteq> [] \<Longrightarrow>
      P (reconcile_index env bc p)"
  shows "P (PolicyReconcile env bc req)"
  using assms by (auto simp: PolicyReconcile_def split: sum.split go_error.split)

lemma PolicyReconcile_podIndex [simp]: "podIndex (reconciled env bc req) = podIndex bc"
  by (rule PolicyReconcile_cases) (simp_all add: reconcile_states Let_def)

lemma PolicyReconcile_cache_inv [wf_intros]:
  assumes "cache_inv bc"
  shows "cache_inv (reconciled env bc req)"
  by (rule PolicyReconcile_cases)
    (use assms in \<open>auto simp: reconcile_states Let_def
      intro: wf_intros cache_inv_delete_policy cache_inv_upsert_policy\<close>)

section \<open>Coherence\<close>

text \<open>
  The one condition under which the deletion branch is right: if the policy is indexed, then with
  the selector that the deleted object still shows.
\<close>

definition deletion_agrees :: "PolicyEnv \<Rightarrow> BlocklistCache \<Rightarrow> NamespacedName \<Rightarrow> bool" where
  "deletion_agrees env bc req \<longleftrightarrow>
     (\<forall>p q. getPolicy env req = Inr p \<longrightarrow> \<not> timeIsZero env (DeletionTimestamp (ObjMeta p)) \<longrightarrow>
        gm_get (policies (policyIndex bc)) req = Some q \<longrightarrow>
        nm_get (TargetSelector (Spec q)) = nm_get (TargetSelector (Spec p)))"

lemma selects_cong:
  assumes "selects (Some q) labels" and "policy_wf q" and "policy_wf p"
    and "nm_get (TargetSelector (Spec q)) = nm_get (TargetSelector (Spec p))"
  shows "LabelsContainAll labels (TargetSelector (Spec p))"
  using assms LabelsContainAll_cong [of labels labels "TargetSelector (Spec q)" "TargetSelector (Spec p)"]
  by (simp add: selects_def spec_wf_def)

lemma indexed_policy_wf:
  "cache_inv bc \<Longrightarrow> gm_get (policies (policyIndex bc)) n = Some q \<Longrightarrow> policy_wf q"
  by (simp add: cache_inv_def policyindex_inv_def)

text \<open>
  The pods that the two recalculations visit include all pods of the indexed policy: when the
  selector is unchanged, and on a deletion that agrees.
\<close>

lemma unchanged_selector_covers:
  assumes inv: "cache_inv bc" and wf: "policy_wf p"
    and unchanged: "\<not> (fst (PolicyIndex_Upsert (policyIndex bc) p) \<noteq> None \<and>
      \<not> selectorsEqual (fst (PolicyIndex_Upsert (policyIndex bc) p)) (TargetSelector (Spec p)))"
    and sel: "selects (gm_get (policies (policyIndex bc)) (policyKey p)) labels"
  shows "LabelsContainAll labels (TargetSelector (Spec p))"
proof -
  let ?old = "fst (PolicyIndex_Upsert (policyIndex bc) p)"
  from sel obtain q where q: "gm_get (policies (policyIndex bc)) (policyKey p) = Some q"
    by (auto simp: selects_def split: option.splits)
  then have old: "?old = TargetSelector (Spec q)" by (simp add: fst_PolicyIndex_Upsert)
  have "?old \<noteq> None"
  proof
    assume "?old = None"
    then have "nm_list (TargetSelector (Spec q)) = []" by (simp add: old)
    with sel q show False by (simp add: selects_def)
  qed
  with unchanged have "selectorsEqual ?old (TargetSelector (Spec p))" by blast
  then have "nm_get (TargetSelector (Spec q)) = nm_get (TargetSelector (Spec p))"
    using old wf indexed_policy_wf [OF inv q] by (simp add: selectorsEqual_iff spec_wf_def)
  with sel q show ?thesis
    using wf indexed_policy_wf [OF inv q] by (auto intro: selects_cong)
qed

lemma deletion_covers:
  assumes inv: "cache_inv bc" and env: "env_ok env" and agrees: "deletion_agrees env bc req"
    and get: "getPolicy env req = Inr p" "\<not> timeIsZero env (DeletionTimestamp (ObjMeta p))"
    and sel: "selects (gm_get (policies (policyIndex bc)) req) labels"
  shows "LabelsContainAll labels (TargetSelector (Spec p))"
proof -
  from sel obtain q where q: "gm_get (policies (policyIndex bc)) req = Some q"
    by (auto simp: selects_def split: option.splits)
  then have "nm_get (TargetSelector (Spec q)) = nm_get (TargetSelector (Spec p))"
    using agrees get by (simp add: deletion_agrees_def)
  then show ?thesis
    using sel q indexed_policy_wf [OF inv q] env get(1) by (auto simp: env_ok_def intro: selects_cong)
qed

lemma coherent_reconcile_index:
  assumes inv: "cache_inv bc" and coh: "coherent bc" and rc: "rev_complete (podIndex bc)"
    and wf: "policy_wf p"
  shows "coherent (fst (snd (reconcile_index env bc p)))"
proof (cases "fst (PolicyIndex_Upsert (policyIndex bc) p) \<noteq> None \<and>
    \<not> selectorsEqual (fst (PolicyIndex_Upsert (policyIndex bc) p)) (TargetSelector (Spec p))")
  case True
  then show ?thesis
    using coherent_Upsert_Change [OF assms] by (simp add: state_index Let_def)
next
  case False
  then show ?thesis
    unfolding state_index Let_def if_not_P [OF False]
    by (intro coherent_Upsert_same [OF assms] unchanged_selector_covers [OF inv wf False])
qed

lemma coherent_PolicyReconcile:
  assumes inv: "cache_inv bc" and coh: "coherent bc" and rc: "rev_complete (podIndex bc)"
    and env: "env_ok env" and agrees: "deletion_agrees env bc req"
  shows "coherent (reconciled env bc req)"
proof (rule PolicyReconcile_cases)
  show "coherent (fst (snd (reconcile_not_found bc req)))"
    unfolding state_not_found using inv coh rc
    by (rule coherent_Delete) (simp add: selects_iff fst_PolicyIndex_Delete)
next
  fix p
  assume get: "getPolicy env req = Inr p" "\<not> timeIsZero env (DeletionTimestamp (ObjMeta p))"
  show "coherent (fst (snd (reconcile_deleting env bc req p)))"
    unfolding state_deleting
    using coh coherent_Delete [OF inv coh rc] deletion_covers [OF inv env agrees get] by simp
next
  fix p
  assume "getPolicy env req = Inr p"
  then show "coherent (fst (snd (reconcile_index env bc p)))"
    using env by (intro coherent_reconcile_index inv coh rc) (simp add: env_ok_def)
qed (simp_all add: coh state_add_finalizer state_invalid)

section \<open>Properties\<close>

text \<open>A concrete environment: one object, an API server that accepts every update.\<close>

definition sample_env :: "DnsPolicy option \<Rightarrow> PolicyEnv" where
  "sample_env obj =
     \<lparr>getPolicy = (\<lambda>req. case obj of
          Some p \<Rightarrow> (if policyKey p = req then Inr p else Inl (NotFound ''not found''))
        | None \<Rightarrow> Inl (NotFound ''not found'')),
      updatePolicy = (\<lambda>_. None), updateStatus = (\<lambda>_. None),
      timeIsZero = (\<lambda>t. t = None \<or> t = Some 0),
      containsFinalizer = (\<lambda>fs f. f \<in> set fs),
      addFinalizer = (\<lambda>fs f. if f \<in> set fs then fs else fs @ [f]),
      removeFinalizer = (\<lambda>fs f. filter (\<lambda>x. x \<noteq> f) fs), now = 17\<rparr>"

lemma sample_env_laws [simp]: "finalizer_laws (sample_env obj)"
  by (auto simp: finalizer_laws_def sample_env_def)

lemma sample_env_ok [simp]: "pred_option policy_wf obj \<Longrightarrow> env_ok (sample_env obj)"
  by (auto simp: env_ok_def sample_env_def split: option.splits if_splits)


definition empty_cache :: BlocklistCache where
  "empty_cache = NewBlocklistCache NewPodIndex NewPolicyIndex"

lemma empty_cache_inv [simp]: "cache_inv empty_cache"
  by (simp add: empty_cache_def cache_inv_def NewBlocklistCache_def entry_ok_def)

lemma sample_deletion_agrees:
  "DeletionTimestamp (ObjMeta p) = None \<Longrightarrow> deletion_agrees (sample_env (Some p)) bc req"
  by (auto simp: deletion_agrees_def sample_env_def split: if_splits)


text \<open>
  C21: deleting a policy whose selector was edited after it was indexed leaves stale entries. The
  deletion branch recalculates the pods that match the selector of the deleted object, not the
  selector under which the policy was indexed: the policy leaves the index, but the entry of a
  pod that does not match the object's selector stays as it was.
\<close>

theorem deletion_after_selector_edit_leaves_stale_entry:
  assumes inv: "cache_inv bc" and rc: "rev_complete (podIndex bc)"
    and get: "getPolicy env req = Inr p" "\<not> timeIsZero env (DeletionTimestamp (ObjMeta p))"
    and fin: "containsFinalizer env (Finalizers (ObjMeta p)) dnsPolicyFinalizer"
    and pod: "PodIndex_Get (podIndex bc) n = Some pod"
      "\<not> LabelsContainAll (Labels pod) (TargetSelector (Spec p))"
  shows "PolicyIndex_Get (policyIndex (reconciled env bc req)) req = None \<and>
    gm_get (entries (reconciled env bc req)) (IP pod) = gm_get (entries bc) (IP pod)"
proof -
  let ?bc1 = "bc\<lparr>policyIndex := snd (PolicyIndex_Delete (policyIndex bc) req)\<rparr>"
  have pinv: "podindex_inv (podIndex bc)" and qinv: "policyindex_inv (policyIndex bc)"
    using inv by (simp_all add: cache_inv_def)
  have eq: "reconciled env bc req = RecalculateForPolicy ?bc1 (TargetSelector (Spec p))"
    using get fin by (simp add: PolicyReconcile_def state_deleting)
  have "pod \<in> set (PodIndex_GetAll (podIndex bc))"
    using pod(1) pinv by (auto simp: PodIndex_Get_eq set_PodIndex_GetAll)
  then have "IP pod \<notin> IP ` set (PodIndex_GetPodsMatchingSelector (podIndex bc) (TargetSelector (Spec p)))"
    using pod(2) GetAll_unique_ip [OF pinv rc] by (auto simp: set_Matching [OF pinv])
  then show ?thesis
    using qinv
    by (simp add: eq RecalculateForPolicy_eq recalc_pods_other PolicyIndex_Get_eq policyindex_inv_Delete)
qed

definition deleted_policy :: DnsPolicy where
  "deleted_policy = moved_policy\<lparr>ObjMeta := (ObjMeta moved_policy)\<lparr>DeletionTimestamp := Some 5\<rparr>\<rparr>"

lemma deleted_env:
  "getPolicy (sample_env (Some deleted_policy)) (policyKey sample_policy) = Inr deleted_policy"
  "\<not> timeIsZero (sample_env (Some deleted_policy)) (DeletionTimestamp (ObjMeta deleted_policy))"
  "containsFinalizer (sample_env (Some deleted_policy)) (Finalizers (ObjMeta deleted_policy)) dnsPolicyFinalizer"
  "env_ok (sample_env (Some deleted_policy))"
  by (simp_all add: sample_env_def deleted_policy_def moved_policy_def sample_policy_def policyKey_def
      dnsPolicyFinalizer_def env_ok_def spec_wf_def)

theorem deletion_after_selector_edit_leaves_stale_entry_witness:
  "PolicyIndex_Get (policyIndex (reconciled (sample_env (Some deleted_policy)) sample_cache
      (policyKey sample_policy))) (policyKey sample_policy) = None \<and>
   gm_get (entries (reconciled (sample_env (Some deleted_policy)) sample_cache (policyKey sample_policy)))
      ''10.0.0.5'' = Some (entry_for sample_policies pod_frontend) \<and>
   ''a.ads.com'' \<in> set (Domains (entry_for sample_policies pod_frontend))"
proof -
  have pod: "PodIndex_Get (podIndex sample_cache) web = Some pod_frontend"
    by (simp add: sample_pods_eq PodIndex_Get_def)
  have nomatch: "\<not> LabelsContainAll (Labels pod_frontend) (TargetSelector (Spec deleted_policy))"
    by (simp add: LabelsContainAll_def pod_frontend_def deleted_policy_def moved_policy_def)
  have ip: "IP pod_frontend = ''10.0.0.5''" by (simp add: pod_frontend_def)
  have "gm_get (entries sample_cache) (IP pod_frontend) = Some (entry_for (policyIndex sample_cache) pod_frontend)"
    by (rule coherentD [OF sample_cache_ok(2,1,3)])
      (simp_all add: sample_pods_eq PodIndex_GetAll_def, simp add: pod_frontend_def)
  moreover have "''a.ads.com'' \<in> set (Domains (entry_for sample_policies pod_frontend))"
    by (simp add: entry_for_def sample_policies_eq PolicyIndex_GetAll_def deepcopy_policy_id)
      (simp add: blocked_def LabelsContainAll_def sample_policy_def pod_frontend_def)
  ultimately show ?thesis
    using deletion_after_selector_edit_leaves_stale_entry [OF sample_cache_ok(1,3) deleted_env(1-3) pod nomatch]
    unfolding ip by simp
qed

section \<open>Effects on the API server\<close>

lemma updateCondition_loop_fst:
  "fst (updateCondition_loop c cs) \<longleftrightarrow> Type c \<in> Type ` set cs"
  by (induction c cs rule: updateCondition_loop.induct) (auto simp: case_prod_unfold Let_def)

lemma updateCondition_loop_types:
  "map Type (snd (updateCondition_loop c cs)) = map Type cs"
  by (induction c cs rule: updateCondition_loop.induct) (auto simp: case_prod_unfold Let_def)

lemma updateCondition_loop_found:
  "Type c \<in> Type ` set cs \<Longrightarrow>
     \<exists>d \<in> set (snd (updateCondition_loop c cs)). Type d = Type c \<and> CondStatus d = CondStatus c"
  by (induction c cs rule: updateCondition_loop.induct) (auto simp: case_prod_unfold Let_def)

lemma updateCondition_loop_other:
  "filter (\<lambda>d. Type d \<noteq> Type c) (snd (updateCondition_loop c cs)) = filter (\<lambda>d. Type d \<noteq> Type c) cs"
  by (induction c cs rule: updateCondition_loop.induct) (auto simp: case_prod_unfold Let_def)

lemma updateCondition_loop_same:
  "\<forall>d \<in> set cs. Type d = Type c \<longrightarrow> CondStatus d = CondStatus c \<Longrightarrow> snd (updateCondition_loop c cs) = cs"
  by (induction c cs rule: updateCondition_loop.induct) (auto simp: case_prod_unfold Let_def)

abbreviation condition_list :: "DnsPolicy \<Rightarrow> Condition list" where
  "condition_list p \<equiv> sl_list (Conditions (Status p))"

lemmas updateCondition_simps =
  updateCondition_def Let_def case_prod_unfold updateCondition_loop_fst

lemma updateCondition_frame [simp]:
  "ObjMeta (updateCondition env p t st r m) = ObjMeta p"
  "Spec (updateCondition env p t st r m) = Spec p"
  "ObservedGeneration (Status (updateCondition env p t st r m)) = ObservedGeneration (Status p)"
  by (simp_all add: updateCondition_simps)

lemma updateCondition_distinct:
  assumes "distinct (map Type (condition_list p))"
  shows "distinct (map Type (condition_list (updateCondition env p t st r m)))"
  using assms by (auto simp: updateCondition_simps updateCondition_loop_types)

lemma updateCondition_exists:
  "\<exists>d \<in> set (condition_list (updateCondition env p t st r m)). Type d = t \<and> CondStatus d = st"
  using updateCondition_loop_found [of "\<lparr>Type = t, CondStatus = st,
    CondObservedGeneration = Generation (ObjMeta p), LastTransitionTime = now env, Reason = r, Message = m\<rparr>"
    "condition_list p"]
  by (simp add: updateCondition_simps)

lemma updateCondition_other:
  "filter (\<lambda>d. Type d \<noteq> t) (condition_list (updateCondition env p t st r m)) =
    filter (\<lambda>d. Type d \<noteq> t) (condition_list p)"
  using updateCondition_loop_other [of "\<lparr>Type = t, CondStatus = st,
    CondObservedGeneration = Generation (ObjMeta p), LastTransitionTime = now env, Reason = r, Message = m\<rparr>"
    "condition_list p"]
  by (simp add: updateCondition_simps)

lemma updateCondition_same:
  assumes "distinct (map Type (condition_list p))"
    and "d \<in> set (condition_list p)" and "Type d = t" and "CondStatus d = st"
  shows "condition_list (updateCondition env p t st r m) = condition_list p"
proof -
  have "\<forall>e \<in> set (condition_list p). Type e = t \<longrightarrow> CondStatus e = st"
    using assms by (auto simp: distinct_map dest: inj_onD)
  moreover have "t \<in> Type ` set (condition_list p)" using assms(2,3) by auto
  ultimately show ?thesis
    using updateCondition_loop_same [of "condition_list p" "\<lparr>Type = t, CondStatus = st,
      CondObservedGeneration = Generation (ObjMeta p), LastTransitionTime = now env, Reason = r, Message = m\<rparr>"]
    by (simp add: updateCondition_simps)
qed

lemma condition_unique:
  assumes "distinct (map Type (condition_list p))"
  shows "\<exists>!d. d \<in> set (condition_list (updateCondition env p t st r m)) \<and> Type d = t"
proof -
  obtain d where "d \<in> set (condition_list (updateCondition env p t st r m))" "Type d = t"
    using updateCondition_exists by blast
  moreover have "inj_on Type (set (condition_list (updateCondition env p t st r m)))"
    using updateCondition_distinct [OF assms] by (simp add: distinct_map)
  ultimately show ?thesis by (auto dest: inj_onD)
qed

lemma condition_status:
  assumes "distinct (map Type (condition_list p))"
    and "d \<in> set (condition_list (updateCondition env p t st r m))" and "Type d = t"
  shows "CondStatus d = st"
  using condition_unique [OF assms(1), of env t st r m] updateCondition_exists [of env p t st r m]
    assms(2,3) by blast

text \<open>
  Setting a condition leaves exactly one condition of that type, with the requested status, and
  every other condition as it was and in its place; when a condition of that type already has the
  status, nothing changes, so the transition time survives.
\<close>

theorem updateCondition_sets_one_condition:
  assumes dist: "distinct (map Type (condition_list p))"
  shows "(\<exists>!d. d \<in> set (condition_list (updateCondition env p t st r m)) \<and> Type d = t) \<and>
    (\<forall>d \<in> set (condition_list (updateCondition env p t st r m)). Type d = t \<longrightarrow> CondStatus d = st) \<and>
    filter (\<lambda>d. Type d \<noteq> t) (condition_list (updateCondition env p t st r m)) =
      filter (\<lambda>d. Type d \<noteq> t) (condition_list p) \<and>
    ((\<exists>d \<in> set (condition_list p). Type d = t \<and> CondStatus d = st) \<longrightarrow>
      condition_list (updateCondition env p t st r m) = condition_list p)"
proof -
  let ?cs = "condition_list (updateCondition env p t st r m)"
  have uniq: "\<exists>!d. d \<in> set ?cs \<and> Type d = t" by (rule condition_unique [OF dist])
  moreover have "\<forall>e \<in> set ?cs. Type e = t \<longrightarrow> CondStatus e = st"
    using condition_status [OF dist] by blast
  moreover note updateCondition_other [of t env p st r m]
  moreover have "(\<exists>d \<in> set (condition_list p). Type d = t \<and> CondStatus d = st) \<longrightarrow> ?cs = condition_list p"
    using updateCondition_same [OF dist] by blast
  ultimately show ?thesis by blast
qed

definition sample_condition :: "string \<Rightarrow> string \<Rightarrow> Condition" where
  "sample_condition t st = \<lparr>Type = t, CondStatus = st, CondObservedGeneration = 1,
     LastTransitionTime = 3, Reason = ''Init'', Message = []\<rparr>"

definition conditioned_policy :: DnsPolicy where
  "conditioned_policy = sample_policy\<lparr>Status := (Status sample_policy)\<lparr>Conditions :=
     Some [sample_condition ''Synced'' ''True'', sample_condition ''Ready'' ''False'']\<rparr>\<rparr>"

theorem updateCondition_sets_one_condition_witness:
  "(\<exists>!d. d \<in> set (condition_list (updateCondition (sample_env None) conditioned_policy
      ''Ready'' ''True'' ''Reconciled'' [])) \<and> Type d = ''Ready'') \<and>
   condition_list (updateCondition (sample_env None) conditioned_policy ''Synced'' ''True'' [] []) =
     condition_list conditioned_policy"
proof
  have dist: "distinct (map Type (condition_list conditioned_policy))"
    by (simp add: conditioned_policy_def sample_condition_def)
  have "\<exists>d \<in> set (condition_list conditioned_policy). Type d = ''Synced'' \<and> CondStatus d = ''True''"
    by (simp add: conditioned_policy_def sample_condition_def)
  then show "condition_list (updateCondition (sample_env None) conditioned_policy ''Synced'' ''True'' [] []) =
     condition_list conditioned_policy"
    by (rule updateCondition_sets_one_condition [OF dist, THEN conjunct2, THEN conjunct2, THEN conjunct2, THEN mp])
  show "\<exists>!d. d \<in> set (condition_list (updateCondition (sample_env None) conditioned_policy
      ''Ready'' ''True'' ''Reconciled'' [])) \<and> Type d = ''Ready''"
    by (rule updateCondition_sets_one_condition [OF dist, THEN conjunct1])
qed

text \<open>The calls to the API server that each branch makes.\<close>

lemma effects_not_found [simp]: "snd (snd (reconcile_not_found bc req)) = []"
  by (simp add: reconcile_not_found_def case_prod_unfold Let_def)

lemma effects_invalid [simp]:
  "snd (snd (reconcile_invalid env bc p)) = [Event ''Warning'' ''InvalidSpec'' ''TargetSelector cannot be empty'']"
  by (simp add: reconcile_invalid_def)

lemma effects_index:
  "snd (snd (reconcile_index env bc p)) =
     Event ''Normal'' ''PolicyIndexed'' ''DnsPolicy successfully indexed'' # snd (reconcile_status env p)"
  by (simp add: reconcile_index_def case_prod_unfold Let_def)

lemma updates_deleting:
  "ApiUpdate q \<in> set (snd (snd (reconcile_deleting env bc req p))) \<longleftrightarrow>
     containsFinalizer env (Finalizers (ObjMeta p)) dnsPolicyFinalizer \<and>
     q = set_finalizers p (removeFinalizer env (Finalizers (ObjMeta p)) dnsPolicyFinalizer)"
  "ApiStatusUpdate q \<notin> set (snd (snd (reconcile_deleting env bc req p)))"
  by (auto simp: reconcile_deleting_def Let_def split: option.splits)

lemma updates_add_finalizer:
  "ApiUpdate q \<in> set (snd (snd (reconcile_add_finalizer env bc p))) \<longleftrightarrow>
     q = set_finalizers p (addFinalizer env (Finalizers (ObjMeta p)) dnsPolicyFinalizer)"
  "ApiStatusUpdate q \<notin> set (snd (snd (reconcile_add_finalizer env bc p)))"
  by (auto simp: reconcile_add_finalizer_def Let_def split: option.splits)

lemma updates_status:
  "ApiUpdate q \<notin> set (snd (reconcile_status env p))"
  "ApiStatusUpdate q \<in> set (snd (reconcile_status env p)) \<longleftrightarrow>
     ObservedGeneration (Status p) \<noteq> Generation (ObjMeta p) \<and>
     q = updateCondition env
       (p\<lparr>Status := (Status p)\<lparr>ObservedGeneration := Generation (ObjMeta p)\<rparr>\<rparr>)
       ''Ready'' ''True'' ''Reconciled'' ''DnsPolicy successfully reconciled''"
  by (auto simp: reconcile_status_def Let_def split: option.splits)

lemmas reconcile_updates = effects_index updates_deleting updates_add_finalizer updates_status

lemma set_finalizers_simps [simp]:
  "Finalizers (ObjMeta (set_finalizers p fs)) = fs"
  "Spec (set_finalizers p fs) = Spec p" "Status (set_finalizers p fs) = Status p"
  "policyKey (set_finalizers p fs) = policyKey p"
  "DeletionTimestamp (ObjMeta (set_finalizers p fs)) = DeletionTimestamp (ObjMeta p)"
  "policy_wf (set_finalizers p fs) = policy_wf p"
  by (simp_all add: set_finalizers_def policyKey_def)

text \<open>The indexed policies after each branch.\<close>

lemma indexed_not_found:
  "gm_get (policies (policyIndex (fst (snd (reconcile_not_found bc req))))) =
     (gm_get (policies (policyIndex bc)))(req := None)"
  by (simp add: state_not_found)

lemma indexed_deleting:
  "gm_get (policies (policyIndex (fst (snd (reconcile_deleting env bc req p))))) =
     (if containsFinalizer env (Finalizers (ObjMeta p)) dnsPolicyFinalizer
      then (gm_get (policies (policyIndex bc)))(req := None) else gm_get (policies (policyIndex bc)))"
  by (simp add: state_deleting)

lemma indexed_index:
  "policy_wf p \<Longrightarrow> gm_get (policies (policyIndex (fst (snd (reconcile_index env bc p))))) =
     (gm_get (policies (policyIndex bc)))(policyKey p \<mapsto> p)"
  by (simp add: state_index Let_def gomap_simps deepcopy_policy_id)

lemmas reconcile_indexed =
  indexed_not_found indexed_deleting indexed_index state_add_finalizer state_invalid

lemma reconciled_Get:
  "cache_inv bc \<Longrightarrow> PolicyIndex_Get (policyIndex (reconciled env bc req)) n =
     gm_get (policies (policyIndex (reconciled env bc req))) n"
  using PolicyReconcile_cache_inv [of bc env req] by (simp add: cache_inv_def PolicyIndex_Get_eq)

lemma cache_Get:
  "cache_inv bc \<Longrightarrow> PolicyIndex_Get (policyIndex bc) n = gm_get (policies (policyIndex bc)) n"
  by (simp add: cache_inv_def PolicyIndex_Get_eq)

lemma finalizer_lawsD:
  assumes "finalizer_laws env"
  shows "containsFinalizer env fs f \<longleftrightarrow> f \<in> set fs"
    and "set (addFinalizer env fs f) = insert f (set fs)"
    and "set (removeFinalizer env fs f) = set fs - {f}"
  using assms by (simp_all add: finalizer_laws_def)




definition emptied_policy :: DnsPolicy where
  "emptied_policy = sample_policy\<lparr>Spec := (Spec sample_policy)\<lparr>TargetSelector := None\<rparr>\<rparr>"


text \<open>
  C16: what a successful reconcile reports is true. Every status update it sends has the observed
  generation of the object it read, keeps spec and metadata, has exactly one Ready condition, with
  status True, and is sent only after the policy was stored in the index.
\<close>

theorem status_update_reports_indexed_policy:
  assumes inv: "cache_inv bc" and ok: "env_ok env" and get: "getPolicy env req = Inr p"
    and dist: "distinct (map Type (condition_list p))"
    and upd: "ApiStatusUpdate q \<in> set (reconcile_effects env bc req)"
  shows "ObservedGeneration (Status q) = Generation (ObjMeta p) \<and> ObjMeta q = ObjMeta p \<and>
    Spec q = Spec p \<and> (\<exists>!d. d \<in> set (condition_list q) \<and> Type d = ''Ready'') \<and>
    (\<exists>d \<in> set (condition_list q). Type d = ''Ready'' \<and> CondStatus d = ''True'') \<and>
    PolicyIndex_Get (policyIndex (reconciled env bc req)) req = Some p"
proof -
  have p: "policy_wf p" "policyKey p = req" using ok get by (simp_all add: env_ok_def)
  let ?p1 = "p\<lparr>Status := (Status p)\<lparr>ObservedGeneration := Generation (ObjMeta p)\<rparr>\<rparr>"
  have idx: "PolicyReconcile env bc req = reconcile_index env bc p"
    and q: "q = updateCondition env ?p1 ''Ready'' ''True'' ''Reconciled'' ''DnsPolicy successfully reconciled''"
    using upd get by (auto simp: PolicyReconcile_def reconcile_updates split: if_splits)
  have dist1: "distinct (map Type (condition_list ?p1))" using dist by simp
  have "\<exists>!d. d \<in> set (condition_list q) \<and> Type d = ''Ready''"
    unfolding q by (rule condition_unique [OF dist1])
  moreover have "\<exists>d \<in> set (condition_list q). Type d = ''Ready'' \<and> CondStatus d = ''True''"
    unfolding q by (rule updateCondition_exists)
  ultimately show ?thesis
    using p inv by (simp add: reconciled_Get) (simp add: idx q indexed_index)
qed

theorem status_update_reports_indexed_policy_witness:
  "\<exists>q. ApiStatusUpdate q \<in> set (reconcile_effects (sample_env (Some sample_policy)) empty_cache
       (policyKey sample_policy)) \<and>
     ObservedGeneration (Status q) = 1 \<and>
     PolicyIndex_Get (policyIndex (reconciled (sample_env (Some sample_policy)) empty_cache
       (policyKey sample_policy))) (policyKey sample_policy) = Some sample_policy"
proof -
  let ?env = "sample_env (Some sample_policy)"
  have get: "getPolicy ?env (policyKey sample_policy) = Inr sample_policy" by (simp add: sample_env_def)
  have ok: "env_ok ?env" by (rule sample_env_ok) (simp add: sample_policy_def spec_wf_def)
  have dist: "distinct (map Type (condition_list sample_policy))" by (simp add: sample_policy_def)
  have "PolicyReconcile ?env empty_cache (policyKey sample_policy) = reconcile_index ?env empty_cache sample_policy"
    by (simp add: PolicyReconcile_def get)
      (simp add: sample_env_def sample_policy_def dnsPolicyFinalizer_def)
  then obtain q where "ApiStatusUpdate q \<in> set (reconcile_effects ?env empty_cache (policyKey sample_policy))"
    by (auto simp: reconcile_updates) (simp add: sample_policy_def)
  then show ?thesis
    using status_update_reports_indexed_policy [OF empty_cache_inv ok get dist]
    by (force simp: sample_policy_def)
qed

text \<open>
  A new policy takes effect after two reconciles: when the API server accepts the updates, the
  first call adds the finalizer, and the second, which reads the object the first one sent, stores
  the policy in the index with its spec.
\<close>

theorem new_policy_indexed_after_two_reconciles:
  assumes inv: "cache_inv bc" and laws: "finalizer_laws env1" "finalizer_laws env2"
    and get: "getPolicy env1 req = Inr p" "policy_wf p" "policyKey p = req"
    and new: "dnsPolicyFinalizer \<notin> set (Finalizers (ObjMeta p))"
      "timeIsZero env1 (DeletionTimestamp (ObjMeta p))" "nm_len (TargetSelector (Spec p)) > 0"
    and zero: "timeIsZero env2 = timeIsZero env1"
    and accept: "updatePolicy env1 = (\<lambda>_. None)"
    and reread: "\<And>q. ApiUpdate q \<in> set (reconcile_effects env1 bc req) \<Longrightarrow> getPolicy env2 req = Inr q"
  shows "fst (PolicyReconcile env1 bc req) = None \<and> reconciled env1 bc req = bc \<and>
    (\<exists>q. PolicyIndex_Get (policyIndex (reconciled env2 (reconciled env1 bc req) req)) req = Some q \<and>
       Spec q = Spec p)"
proof -
  let ?q = "set_finalizers p (addFinalizer env1 (Finalizers (ObjMeta p)) dnsPolicyFinalizer)"
  have 1: "PolicyReconcile env1 bc req = reconcile_add_finalizer env1 bc p"
    using get new by (simp add: PolicyReconcile_def finalizer_lawsD [OF laws(1)])
  then have "getPolicy env2 req = Inr ?q" by (intro reread) (simp add: updates_add_finalizer)
  then have 2: "PolicyReconcile env2 bc req = reconcile_index env2 bc ?q"
    using new by (simp add: PolicyReconcile_def finalizer_lawsD laws zero)
  have "fst (PolicyReconcile env1 bc req) = None"
    unfolding 1 by (simp add: reconcile_add_finalizer_def accept Let_def)
  moreover have same: "reconciled env1 bc req = bc" by (simp add: 1 state_add_finalizer)
  moreover have "PolicyIndex_Get (policyIndex (reconciled env2 bc req)) req = Some ?q"
    unfolding reconciled_Get [OF inv] using get by (simp add: 2 indexed_index)
  ultimately show ?thesis unfolding same by simp
qed

definition fresh_policy :: DnsPolicy where
  "fresh_policy = set_finalizers sample_policy []"

theorem new_policy_indexed_after_two_reconciles_witness:
  "\<exists>q. PolicyIndex_Get (policyIndex (reconciled (sample_env (Some sample_policy))
      (reconciled (sample_env (Some fresh_policy)) empty_cache (policyKey sample_policy))
      (policyKey sample_policy))) (policyKey sample_policy) = Some q \<and> Spec q = Spec sample_policy"
proof -
  let ?env1 = "sample_env (Some fresh_policy)" and ?env2 = "sample_env (Some sample_policy)"
  have p: "getPolicy ?env1 (policyKey sample_policy) = Inr fresh_policy" "policy_wf fresh_policy"
    "policyKey fresh_policy = policyKey sample_policy"
    "dnsPolicyFinalizer \<notin> set (Finalizers (ObjMeta fresh_policy))"
    "timeIsZero ?env1 (DeletionTimestamp (ObjMeta fresh_policy))"
    "nm_len (TargetSelector (Spec fresh_policy)) > 0"
    by (simp_all add: fresh_policy_def) (simp_all add: sample_env_def sample_policy_def spec_wf_def)
  have env: "timeIsZero ?env2 = timeIsZero ?env1" "updatePolicy ?env1 = (\<lambda>_. None)"
    by (simp_all add: sample_env_def)
  have "getPolicy ?env2 (policyKey sample_policy) = Inr q"
    if "ApiUpdate q \<in> set (reconcile_effects ?env1 empty_cache (policyKey sample_policy))" for q
    using that p by (simp add: PolicyReconcile_def reconcile_updates finalizer_lawsD split: if_splits)
      (simp add: sample_env_def fresh_policy_def set_finalizers_def sample_policy_def dnsPolicyFinalizer_def)
  from new_policy_indexed_after_two_reconciles [OF empty_cache_inv sample_env_laws sample_env_laws p env this]
  have "\<exists>q. PolicyIndex_Get (policyIndex (reconciled ?env2 (reconciled ?env1 empty_cache (policyKey sample_policy))
      (policyKey sample_policy))) (policyKey sample_policy) = Some q \<and> Spec q = Spec fresh_policy" by blast
  moreover have "Spec fresh_policy = Spec sample_policy" by (simp add: fresh_policy_def)
  ultimately show ?thesis by (simp only:)
qed

end
