(* ===== verification/Pod_Reconciler.thy ===== *)
theory Pod_Reconciler
  imports Policy_Reconciler
begin

text \<open>
  \<^verbatim>\<open>controller/internal/controller/pod_controller.go\<close>: the reconciler of pods and the filter of pod
  events. \<open>Pod\<close> holds the fields of \<^verbatim>\<open>corev1.Pod\<close> that the source reads; the client's \<open>Get\<close> is the
  parameter \<open>getPod\<close>. The object of an event is an interface value in Go, which the filter asserts
  to be a pod: an event carries \<open>None\<close> where the assertion fails.
\<close>

record Pod =
  PodNamespace :: string
  PodName :: string
  PodLabels :: strmap
  PodIP :: string
  Phase :: string

record PodEnv =
  getPod :: "NamespacedName \<Rightarrow> go_error + Pod"

datatype pod_event =
    CreateEvent "Pod option"
  | UpdateEvent "Pod option" "Pod option"
  | DeleteEvent "Pod option"
  | GenericEvent "Pod option"

section \<open>Operations\<close>

definition PodRunning :: string where
  "PodRunning = ''Running''"

definition PodNamespacedName :: "Pod \<Rightarrow> NamespacedName" where
  "PodNamespacedName pod = NamespacedName (PodNamespace pod) (PodName pod)"

primrec labelsEqual_loop :: "(string, string) gomap \<Rightarrow> strmap \<Rightarrow> bool" where
  "labelsEqual_loop [] b = True"
| "labelsEqual_loop (kv # rest) b =
     (case nm_get b (fst kv) of
        None \<Rightarrow> False
      | Some bv \<Rightarrow> (if bv \<noteq> snd kv then False else labelsEqual_loop rest b))"

definition labelsEqual :: "strmap \<Rightarrow> strmap \<Rightarrow> bool" where
  "labelsEqual a b =
     (if nm_len a \<noteq> nm_len b then False else labelsEqual_loop (nm_list a) b)"

fun podEventFilter :: "pod_event \<Rightarrow> bool" where
  "podEventFilter (CreateEvent None) = False"
| "podEventFilter (CreateEvent (Some pod)) = (PodIP pod \<noteq> [] \<and> Phase pod = PodRunning)"
| "podEventFilter (UpdateEvent None _) = False"
| "podEventFilter (UpdateEvent (Some oldPod) None) = False"
| "podEventFilter (UpdateEvent (Some oldPod) (Some newPod)) =
     (let becameRunning = (Phase oldPod \<noteq> PodRunning \<and> Phase newPod = PodRunning);
          stoppedRunning = (Phase oldPod = PodRunning \<and> Phase newPod \<noteq> PodRunning);
          ipChanged = (PodIP oldPod \<noteq> PodIP newPod);
          labelsChanged = (\<not> labelsEqual (PodLabels oldPod) (PodLabels newPod))
      in becameRunning \<or> stoppedRunning \<or> ipChanged \<or> labelsChanged)"
| "podEventFilter (DeleteEvent _) = True"
| "podEventFilter (GenericEvent _) = False"

text \<open>The branch of \<open>Reconcile\<close> for a pod that no longer exists.\<close>

definition pod_not_found :: "BlocklistCache \<Rightarrow> NamespacedName \<Rightarrow> BlocklistCache" where
  "pod_not_found bc req =
     (let existingPod = PodIndex_Get (podIndex bc) req;
          bc1 = (case existingPod of Some existing \<Rightarrow> RemovePod bc (IP existing) | None \<Rightarrow> bc)
      in bc1\<lparr>podIndex := PodIndex_Delete (podIndex bc1) req\<rparr>)"

text \<open>The branch for a pod that is not running.\<close>

definition pod_not_running :: "BlocklistCache \<Rightarrow> NamespacedName \<Rightarrow> BlocklistCache" where
  "pod_not_running bc req =
     (case PodIndex_Get (podIndex bc) req of
        Some existing \<Rightarrow>
          (let bc1 = RemovePod bc (IP existing)
           in bc1\<lparr>podIndex := PodIndex_Delete (podIndex bc1) req\<rparr>)
      | None \<Rightarrow> bc)"

definition podInfo_of :: "Pod \<Rightarrow> PodInfo" where
  "podInfo_of pod = \<lparr>IP = PodIP pod, Labels = PodLabels pod, Namespace = PodNamespace pod, Name = PodName pod\<rparr>"

text \<open>The branch that stores the pod and recalculates its entry.\<close>

definition pod_upsert :: "BlocklistCache \<Rightarrow> NamespacedName \<Rightarrow> PodInfo \<Rightarrow> BlocklistCache" where
  "pod_upsert bc req podInfo =
     (let bc1 = (case PodIndex_Get (podIndex bc) req of
                   Some existing \<Rightarrow> (if IP existing \<noteq> IP podInfo then RemovePod bc (IP existing) else bc)
                 | None \<Rightarrow> bc);
          bc2 = bc1\<lparr>podIndex := PodIndex_Upsert (podIndex bc1) req podInfo\<rparr>
      in RecalculatePod bc2 req)"

definition PodReconcile ::
  "PodEnv \<Rightarrow> BlocklistCache \<Rightarrow> NamespacedName \<Rightarrow> go_error option \<times> BlocklistCache" where
  "PodReconcile env bc req =
     (case getPod env req of
        Inl (NotFound _) \<Rightarrow> (None, pod_not_found bc req)
      | Inl err \<Rightarrow> (Some err, bc)
      | Inr pod \<Rightarrow>
          if PodIP pod = [] then (None, bc)
          else if Phase pod \<noteq> PodRunning \<and> length (PodIP pod) = 0 then (None, pod_not_running bc req)
          else (None, pod_upsert bc req (podInfo_of pod)))"

abbreviation pod_reconciled :: "PodEnv \<Rightarrow> BlocklistCache \<Rightarrow> NamespacedName \<Rightarrow> BlocklistCache" where
  "pod_reconciled env bc req \<equiv> snd (PodReconcile env bc req)"

section \<open>Effect on the pod index\<close>

text \<open>How the two writes move the reverse lookup.\<close>

lemma GetByIP_Delete:
  assumes inv: "podindex_inv pi"
  shows "PodIndex_GetByIP (PodIndex_Delete pi n) =
    (case PodIndex_Get pi n of
       None \<Rightarrow> PodIndex_GetByIP pi
     | Some e \<Rightarrow> (PodIndex_GetByIP pi)(IP e := None))"
proof (cases "gm_get (pods pi) n")
  case None
  then show ?thesis using inv by (simp add: PodIndex_Get_eq PodIndex_Delete_def)
next
  case (Some e)
  have "gm_get (ipToPod pi) ip \<noteq> Some n" if "ip \<noteq> IP e" for ip
    using that Some podindex_inv_rev [OF inv, of ip n] by auto
  with Some inv show ?thesis
    by (intro ext) (auto simp: PodIndex_Get_eq PodIndex_GetByIP_def PodIndex_Delete_def gomap_simps
        split: option.splits)
qed

lemma GetByIP_Upsert:
  assumes inv: "podindex_inv pi"
  shows "PodIndex_GetByIP (PodIndex_Upsert pi n info) =
    (case PodIndex_Get pi n of
       None \<Rightarrow> PodIndex_GetByIP pi
     | Some e \<Rightarrow> (PodIndex_GetByIP pi)(IP e := None))(IP info \<mapsto> copyPodInfo info)"
proof (rule ext)
  fix ip
  have *: "gm_get (ipToPod pi) ip = Some n \<Longrightarrow> \<exists>e. gm_get (pods pi) n = Some e \<and> IP e = ip" for ip
    by (rule podindex_inv_rev [OF inv])
  show "PodIndex_GetByIP (PodIndex_Upsert pi n info) ip =
    ((case PodIndex_Get pi n of
       None \<Rightarrow> PodIndex_GetByIP pi
     | Some e \<Rightarrow> (PodIndex_GetByIP pi)(IP e := None))(IP info \<mapsto> copyPodInfo info)) ip"
    using inv * [of ip]
    by (auto simp: PodIndex_Get_eq PodIndex_GetByIP_def ipToPod_Upsert gomap_simps split: option.splits)
qed

text \<open>The branch for a pod that is not running is never taken.\<close>

lemma PodReconcile_eq:
  "PodReconcile env bc req =
     (case getPod env req of
        Inl (NotFound _) \<Rightarrow> (None, pod_not_found bc req)
      | Inl err \<Rightarrow> (Some err, bc)
      | Inr pod \<Rightarrow> (None, if PodIP pod = [] then bc else pod_upsert bc req (podInfo_of pod)))"
  by (auto simp: PodReconcile_def split: sum.split go_error.split)

lemma pod_not_found_indexes [simp]:
  "podIndex (pod_not_found bc req) = PodIndex_Delete (podIndex bc) req"
  "policyIndex (pod_not_found bc req) = policyIndex bc"
  by (simp_all add: pod_not_found_def RemovePod_def Let_def split: option.split)

lemma entries_not_found:
  "gm_get (entries (pod_not_found bc req)) =
     (case PodIndex_Get (podIndex bc) req of
        None \<Rightarrow> gm_get (entries bc)
      | Some e \<Rightarrow> (gm_get (entries bc))(IP e := None))"
  by (auto simp: pod_not_found_def RemovePod_def Let_def gomap_simps split: option.split)

lemma pod_upsert_indexes [simp]:
  "podIndex (pod_upsert bc req info) = PodIndex_Upsert (podIndex bc) req info"
  "policyIndex (pod_upsert bc req info) = policyIndex bc"
  by (simp_all add: pod_upsert_def RemovePod_def Let_def split: option.split)

lemma entries_upsert:
  assumes "cache_inv bc" and "IP info \<noteq> []"
  shows "gm_get (entries (pod_upsert bc req info)) =
    (case PodIndex_Get (podIndex bc) req of
       None \<Rightarrow> gm_get (entries bc)
     | Some e \<Rightarrow> (gm_get (entries bc))(IP e := None))
      (IP info \<mapsto> entry_for (policyIndex bc) (copyPodInfo info))"
proof -
  have "PodIndex_Get (PodIndex_Upsert (podIndex bc) req info) req = Some (copyPodInfo info)"
    using assms(1) by (simp add: cache_inv_def PodIndex_Get_eq podindex_inv_Upsert gomap_simps)
  then show ?thesis
    using assms(2)
    by (auto simp: pod_upsert_def RemovePod_def RecalculatePod_def recalculatePodInternal_eq Let_def
        gomap_simps fun_eq_iff split: option.split)
qed

section \<open>Invariant and coherence\<close>

lemma cache_inv_pods: "cache_inv bc \<Longrightarrow> podindex_inv (podIndex bc)"
  by (simp add: cache_inv_def)

lemma cache_inv_not_found [wf_intros]: "cache_inv bc \<Longrightarrow> cache_inv (pod_not_found bc req)"
  by (auto simp: pod_not_found_def Let_def cache_inv_pods intro!: wf_intros split: option.split)

lemma cache_inv_upsert [wf_intros]: "cache_inv bc \<Longrightarrow> cache_inv (pod_upsert bc req info)"
  by (auto simp: pod_upsert_def Let_def cache_inv_pods intro!: wf_intros split: option.split)

lemma PodReconcile_cache_inv [wf_intros]: "cache_inv bc \<Longrightarrow> cache_inv (pod_reconciled env bc req)"
  by (auto simp: PodReconcile_eq intro: wf_intros split: sum.split go_error.split)

lemma coherent_not_found:
  assumes "cache_inv bc" and "coherent bc"
  shows "coherent (pod_not_found bc req)"
  using assms
  by (intro coherent_def [THEN iffD2] ext)
    (simp add: entries_not_found coherent_def expected_def GetByIP_Delete [OF cache_inv_pods]
      split: option.split)

lemma coherent_upsert:
  assumes "cache_inv bc" and "coherent bc" and "IP info \<noteq> []"
  shows "coherent (pod_upsert bc req info)"
  using assms
  by (intro coherent_def [THEN iffD2] ext)
    (simp add: entries_upsert coherent_def expected_def GetByIP_Upsert [OF cache_inv_pods]
      split: option.split)

lemma coherent_PodReconcile:
  assumes "cache_inv bc" and "coherent bc"
  shows "coherent (pod_reconciled env bc req)"
  using assms
  by (auto simp: PodReconcile_eq podInfo_of_def intro: coherent_not_found coherent_upsert
      split: sum.split go_error.split)

lemma rev_complete_PodReconcile:
  assumes "rev_complete (podIndex bc)"
    and "\<And>pod. getPod env req = Inr pod \<Longrightarrow> ip_free (podIndex bc) req (PodIP pod)"
  shows "rev_complete (podIndex (pod_reconciled env bc req))"
  using assms
  by (auto simp: PodReconcile_eq podInfo_of_def intro: rev_complete_Delete rev_complete_Upsert
      split: sum.split go_error.split)

section \<open>Properties\<close>

definition sample_pod :: Pod where
  "sample_pod = \<lparr>PodNamespace = ''default'', PodName = ''web'', PodLabels = Some [(''app'', ''frontend'')],
     PodIP = ''10.0.0.7'', Phase = PodRunning\<rparr>"

definition sample_pod_env :: "(go_error + Pod) \<Rightarrow> PodEnv" where
  "sample_pod_env r = \<lparr>getPod = (\<lambda>_. r)\<rparr>"



text \<open>
  C24: what a pod reconcile does to the index: a pod that is gone leaves it, a pod with an IP is
  stored with the IP, labels and names of the object read, every other pod is untouched. The
  pod's phase plays no part: a pod that has stopped running but still shows an IP stays indexed
  (and keeps its blocklist), and a pod that has lost its IP stays indexed under the old one.
\<close>

theorem PodReconcile_ignores_phase:
  assumes inv: "cache_inv bc" and get: "getPod env req = Inr pod"
  shows "PodIndex_Get (podIndex (pod_reconciled env bc req)) =
      (if PodIP pod = [] then PodIndex_Get (podIndex bc)
       else (PodIndex_Get (podIndex bc))(req \<mapsto> copyPodInfo (podInfo_of pod))) \<and>
    (\<forall>phase. getPod env' req = Inr (pod\<lparr>Phase := phase\<rparr>) \<longrightarrow>
       PodReconcile env' bc req = PodReconcile env bc req)"
proof -
  have idx: "podindex_inv (podIndex bc)" using inv by (rule cache_inv_pods)
  then have "PodIndex_Get (PodIndex_Upsert (podIndex bc) req (podInfo_of pod)) =
      (PodIndex_Get (podIndex bc))(req \<mapsto> copyPodInfo (podInfo_of pod))"
    by (intro ext) (simp add: PodIndex_Get_eq podindex_inv_Upsert gomap_simps)
  with get show ?thesis by (simp add: PodReconcile_eq podInfo_of_def)
qed

theorem PodReconcile_ignores_phase_witness:
  "PodIndex_Get (podIndex (pod_reconciled (sample_pod_env (Inr (sample_pod\<lparr>Phase := ''Succeeded''\<rparr>)))
     sample_cache web)) web = Some (copyPodInfo (podInfo_of sample_pod)) \<and>
   pod_reconciled (sample_pod_env (Inr (sample_pod\<lparr>PodIP := []\<rparr>))) sample_cache web = sample_cache"
proof
  let ?env = "sample_pod_env (Inr sample_pod)"
    and ?env' = "sample_pod_env (Inr (sample_pod\<lparr>Phase := ''Succeeded''\<rparr>))"
  have get: "getPod ?env web = Inr sample_pod"
    and get': "getPod ?env' web = Inr (sample_pod\<lparr>Phase := ''Succeeded''\<rparr>)"
    by (simp_all add: sample_pod_env_def)
  have ip: "PodIP sample_pod \<noteq> []" by (simp add: sample_pod_def)
  note * = PodReconcile_ignores_phase [OF sample_cache_ok(1) get, of ?env']
  with get' have "PodReconcile ?env' sample_cache web = PodReconcile ?env sample_cache web" by blast
  with * ip show "PodIndex_Get (podIndex (pod_reconciled ?env' sample_cache web)) web =
      Some (copyPodInfo (podInfo_of sample_pod))" by simp
  show "pod_reconciled (sample_pod_env (Inr (sample_pod\<lparr>PodIP := []\<rparr>))) sample_cache web = sample_cache"
    by (simp add: PodReconcile_eq sample_pod_env_def)
qed

text \<open>
  C22: when an IP is reused before the old pod's deletion is processed, the deletion lifts the block
  of the new pod. If two indexed pods have the same IP and the first is found to be gone, the
  second is still indexed, but it can no longer be found by its IP and it has no entry in the
  cache, whatever policies select it.
\<close>

theorem deleting_pod_drops_entry_of_ip_successor:
  assumes inv: "cache_inv bc" and gone: "getPod env n = Inl (NotFound msg)"
    and old: "PodIndex_Get (podIndex bc) n = Some i" and new: "PodIndex_Get (podIndex bc) m = Some j"
    and shared: "n \<noteq> m" "IP i = IP j"
  shows "PodIndex_Get (podIndex (pod_reconciled env bc n)) m = Some j \<and>
    PodIndex_GetByIP (podIndex (pod_reconciled env bc n)) (IP j) = None \<and>
    gm_get (entries (pod_reconciled env bc n)) (IP j) = None"
proof -
  have idx: "podindex_inv (podIndex bc)" using inv by (rule cache_inv_pods)
  then show ?thesis
    using gone old new shared
    by (simp add: PodReconcile_eq entries_not_found GetByIP_Delete)
      (simp add: PodIndex_Get_eq podindex_inv_Delete pods_Delete)
qed

definition reused_cache :: BlocklistCache where
  "reused_cache = NewBlocklistCache (two_pods (db, pod_backend) (web, pod_frontend)) sample_policies"

theorem deleting_pod_drops_entry_of_ip_successor_witness:
  "gm_get (entries (RecalculateAll reused_cache)) ''10.0.0.5'' \<noteq> None \<and>
   PodIndex_Get (podIndex (pod_reconciled (sample_pod_env (Inl (NotFound [])))
     (RecalculateAll reused_cache) db)) web = Some pod_frontend \<and>
   gm_get (entries (pod_reconciled (sample_pod_env (Inl (NotFound [])))
     (RecalculateAll reused_cache) db)) ''10.0.0.5'' = None"
proof -
  let ?bc = "RecalculateAll reused_cache" and ?env = "sample_pod_env (Inl (NotFound []))"
  have inv: "cache_inv ?bc"
    by (auto simp: reused_cache_def sample_policies_def intro!: wf_intros)
  have pods: "PodIndex_Get (podIndex ?bc) db = Some pod_backend"
    "PodIndex_Get (podIndex ?bc) web = Some pod_frontend"
    by (simp_all add: reused_cache_def NewBlocklistCache_def PodIndex_Get_def PodIndex_Upsert_def
        NewPodIndex_def Let_def) (simp_all add: copyPodInfo_def pod_backend_def pod_frontend_def web_def db_def)
  have ips: "db \<noteq> web" "IP pod_backend = IP pod_frontend" "IP pod_frontend = ''10.0.0.5''"
    by (simp_all add: web_def db_def pod_backend_def pod_frontend_def)
  have gone: "getPod ?env db = Inl (NotFound [])" by (simp add: sample_pod_env_def)
  have "gm_get (entries ?bc) ''10.0.0.5'' \<noteq> None"
    by (simp add: RecalculateAll_def reused_cache_def NewBlocklistCache_def PodIndex_GetAll_def
        PodIndex_Upsert_def NewPodIndex_def Let_def)
      (simp add: recalculatePodInternal_eq gomap_simps pod_backend_def pod_frontend_def copyPodInfo_def web_def db_def)
  then show ?thesis
    using deleting_pod_drops_entry_of_ip_successor [OF inv gone pods ips(1,2)] ips(3) by simp
qed

section \<open>The event filter\<close>

lemma labelsEqual_selectorsEqual: "labelsEqual a b = selectorsEqual a b"
proof -
  have "labelsEqual_loop m b = selectorsEqual_loop m b" for m
    by (induction m) (auto split: option.split)
  then show ?thesis by (simp add: labelsEqual_def selectorsEqual_def)
qed

text \<open>
  The two map comparisons of the controller decide equality of the maps: they look at the
  lengths and at the entries of the first map only, and this is enough.
\<close>

theorem map_comparisons_decide_equality:
  assumes "nm_wf a" and "nm_wf b"
  shows "labelsEqual a b = (nm_get a = nm_get b) \<and> selectorsEqual a b = (nm_get a = nm_get b)"
  using selectorsEqual_iff [OF assms] by (simp add: labelsEqual_selectorsEqual)

theorem map_comparisons_decide_equality_witness:
  "labelsEqual (Some [(''app'', ''web''), (''tier'', ''1'')]) (Some [(''tier'', ''1''), (''app'', ''web'')]) \<and>
   \<not> selectorsEqual (Some [(''app'', ''web'')]) (Some [(''app'', ''db'')])"
proof
  have "nm_get (Some [(''app'', ''web''), (''tier'', ''1'')]) = nm_get (Some [(''tier'', ''1''), (''app'', ''web'')])"
    by (rule ext) simp
  then show "labelsEqual (Some [(''app'', ''web''), (''tier'', ''1'')]) (Some [(''tier'', ''1''), (''app'', ''web'')])"
    by (intro map_comparisons_decide_equality [THEN conjunct1, THEN iffD2]) simp_all
  have "nm_get (Some [(''app'', ''web'')]) ''app'' \<noteq> nm_get (Some [(''app'', ''db'')]) ''app''" by simp
  then have "nm_get (Some [(''app'', ''web'')]) \<noteq> nm_get (Some [(''app'', ''db'')])" by metis
  moreover have "nm_wf (Some [(''app'', ''web'')])" "nm_wf (Some [(''app'', ''db'')])" by simp_all
  ultimately show "\<not> selectorsEqual (Some [(''app'', ''web'')]) (Some [(''app'', ''db'')])"
    using map_comparisons_decide_equality by blast
qed

lemma filter_dropped:
  assumes "\<not> podEventFilter (UpdateEvent (Some old) (Some new))"
    and "nm_wf (PodLabels old)" and "nm_wf (PodLabels new)"
  shows "PodIP new = PodIP old" "nm_get (PodLabels new) = nm_get (PodLabels old)"
    "Phase new = PodRunning \<longleftrightarrow> Phase old = PodRunning"
proof -
  have drop: "PodIP old = PodIP new" "selectorsEqual (PodLabels old) (PodLabels new)"
    "Phase old = PodRunning \<longleftrightarrow> Phase new = PodRunning"
    using assms(1) by (auto simp: Let_def labelsEqual_selectorsEqual)
  then show "PodIP new = PodIP old" "Phase new = PodRunning \<longleftrightarrow> Phase old = PodRunning" by simp_all
  show "nm_get (PodLabels new) = nm_get (PodLabels old)"
    using drop(2) unfolding selectorsEqual_iff [OF assms(2,3)] by (rule sym)
qed

lemma entry_for_cong:
  assumes "policyindex_inv pol" and "IP p = IP q" and "nm_get (Labels p) = nm_get (Labels q)"
  shows "entry_for pol p = entry_for pol q"
proof -
  have "LabelsContainAll (Labels p) (TargetSelector (Spec x)) =
      LabelsContainAll (Labels q) (TargetSelector (Spec x))" if "x \<in> set (PolicyIndex_GetAll pol)" for x
  proof -
    have "policy_wf x" using that assms(1) by (auto simp: set_PolicyIndex_GetAll policyindex_inv_def)
    then show ?thesis using assms(3) by (intro LabelsContainAll_cong) (simp_all add: spec_wf_def)
  qed
  then have "blocked (set (PolicyIndex_GetAll pol)) (Labels p) = blocked (set (PolicyIndex_GetAll pol)) (Labels q)"
    by (auto simp: blocked_def)
  with assms(2) show ?thesis by (simp add: entry_for_def)
qed


definition relabelled_pod :: "string \<Rightarrow> Pod" where
  "relabelled_pod phase = \<lparr>PodNamespace = ''default'', PodName = ''web'',
     PodLabels = Some [(''app'', ''frontend'')], PodIP = ''10.0.0.5'', Phase = phase\<rparr>"


text \<open>The events the API server sends for the versions of one pod, in order.\<close>

fun update_events :: "Pod \<Rightarrow> Pod list \<Rightarrow> pod_event list" where
  "update_events p [] = []"
| "update_events p (q # qs) = UpdateEvent (Some p) (Some q) # update_events q qs"

definition history_events :: "Pod list \<Rightarrow> pod_event list" where
  "history_events ps = (case ps of [] \<Rightarrow> [] | p # qs \<Rightarrow> CreateEvent (Some p) # update_events p qs)"

lemma length_history_events [simp]: "length (history_events ps) = length ps"
proof -
  have "length (update_events p qs) = length qs" for p qs
    by (induction p qs rule: update_events.induct) auto
  then show ?thesis by (simp add: history_events_def split: list.split)
qed

lemma history_events_snoc:
  "ps \<noteq> [] \<Longrightarrow> history_events (ps @ [q]) = history_events ps @ [UpdateEvent (Some (last ps)) (Some q)]"
proof -
  have "update_events p (qs @ [q]) = update_events p qs @ [UpdateEvent (Some (last (p # qs))) (Some q)]" for p qs
    by (induction p qs rule: update_events.induct) auto
  then show "ps \<noteq> [] \<Longrightarrow> ?thesis" by (cases ps) (simp_all add: history_events_def)
qed

text \<open>
  C14: the filter misses no running pod. For every history of a pod (its version at creation and
  the versions of later updates) that ends in a running pod with an IP, some event passes the
  filter at or after the point from which IP and labels are the final ones, so that the reconcile
  it triggers, or any later one, reads the final IP and labels.
\<close>

theorem event_filter_misses_no_running_pod:
  assumes "ps \<noteq> []" and "\<forall>p \<in> set ps. nm_wf (PodLabels p)"
    and "Phase (last ps) = PodRunning" and "PodIP (last ps) \<noteq> []"
  shows "\<exists>k < length ps. podEventFilter (history_events ps ! k) \<and>
    (\<forall>i. k \<le> i \<and> i < length ps \<longrightarrow> PodIP (ps ! i) = PodIP (last ps) \<and>
       nm_get (PodLabels (ps ! i)) = nm_get (PodLabels (last ps)))"
  using assms
proof (induction ps rule: rev_induct)
  case (snoc q ps)
  show ?case
  proof (cases "ps = []")
    case True
    with snoc.prems show ?thesis by (auto simp: history_events_def)
  next
    case False
    let ?e = "UpdateEvent (Some (last ps)) (Some q)"
    have ev: "history_events (ps @ [q]) = history_events ps @ [?e]" using False by (rule history_events_snoc)
    show ?thesis
    proof (cases "podEventFilter ?e")
      case True
      then show ?thesis using ev by (intro exI [of _ "length ps"]) (auto simp: nth_append)
    next
      case drop: False
      have wf: "nm_wf (PodLabels (last ps))" "nm_wf (PodLabels q)" using snoc.prems(2) False by auto
      note same = filter_dropped [OF drop wf]
      obtain k where k: "k < length ps" "podEventFilter (history_events ps ! k)"
        "\<forall>i. k \<le> i \<and> i < length ps \<longrightarrow> PodIP (ps ! i) = PodIP (last ps) \<and>
           nm_get (PodLabels (ps ! i)) = nm_get (PodLabels (last ps))"
        using snoc.IH False snoc.prems same by auto
      then show ?thesis
        using ev same by (intro exI [of _ k]) (auto simp: nth_append less_Suc_eq)
    qed
  qed
qed simp

theorem event_filter_misses_no_running_pod_witness:
  "\<exists>k < 3. podEventFilter (history_events
     [relabelled_pod ''Pending'', sample_pod\<lparr>Phase := ''Pending''\<rparr>, sample_pod] ! k)"
proof -
  let ?ps = "[relabelled_pod ''Pending'', sample_pod\<lparr>Phase := ''Pending''\<rparr>, sample_pod]"
  have "?ps \<noteq> []" "\<forall>p \<in> set ?ps. nm_wf (PodLabels p)" "Phase (last ?ps) = PodRunning" "PodIP (last ?ps) \<noteq> []"
    by (simp_all add: relabelled_pod_def sample_pod_def)
  from event_filter_misses_no_running_pod [OF this]
  have "\<exists>k < length ?ps. podEventFilter (history_events ?ps ! k)" by blast
  then show ?thesis by (simp add: eval_nat_numeral)
qed

end
