(* ===== verification/Controller_System.thy ===== *)
theory Controller_System
  imports Pod_Reconciler
begin

text \<open>
  The controller in its cluster. \<open>initial_cache\<close> is what \<^verbatim>\<open>controller/cmd/main.go\<close> builds: two empty
  indexes shared by the two reconcilers and the cache. Around it the theory puts the part of the
  world that the reconcilers see: the objects stored by the API server and the work queues, as
  sets of names whose objects changed since they were last reconciled (\<open>dirtyPolicies\<close>,
  \<open>dirtyPods\<close>). A step is an edit of an object by somebody else, one reconcile, or a change of the
  order in which Go's maps are visited. The guards of the steps are the assumptions on the
  cluster: nobody else removes the controller's finalizer, an IP is not reused before the deletion
  of its old pod was reconciled, and the selector of a policy under deletion is the one last
  reconciled. Without the last two the conclusions fail, as
  \<open>deleting_pod_drops_entry_of_ip_successor\<close> and \<open>deletion_after_selector_edit_leaves_stale_entry\<close> show.
\<close>

definition initial_cache :: BlocklistCache where
  "initial_cache =
     (let podIdx = NewPodIndex;
          policyIdx = NewPolicyIndex
      in NewBlocklistCache podIdx policyIdx)"

record System =
  clPolicies :: "NamespacedName \<rightharpoonup> DnsPolicy"
  clPods :: "NamespacedName \<rightharpoonup> Pod"
  ctrl :: BlocklistCache
  dirtyPolicies :: "NamespacedName set"
  dirtyPods :: "NamespacedName set"

section \<open>Steps\<close>

text \<open>
  What an accepted call does to the stored object. An object under deletion whose last finalizer
  is removed disappears. Every change of an object puts its name into the queue.
\<close>

definition store_policy :: "PolicyEnv \<Rightarrow> DnsPolicy \<Rightarrow> System \<Rightarrow> System" where
  "store_policy env q s =
     s\<lparr>clPolicies := (clPolicies s)(policyKey q :=
         if \<not> timeIsZero env (DeletionTimestamp (ObjMeta q)) \<and> Finalizers (ObjMeta q) = [] then None
         else Some q),
       dirtyPolicies := insert (policyKey q) (dirtyPolicies s)\<rparr>"

fun apply_effect :: "PolicyEnv \<Rightarrow> effect \<Rightarrow> System \<Rightarrow> System" where
  "apply_effect env (Event kind reason msg) s = s"
| "apply_effect env (ApiUpdate q) s = (if updatePolicy env q = None then store_policy env q s else s)"
| "apply_effect env (ApiStatusUpdate q) s = (if updateStatus env q = None then store_policy env q s else s)"

text \<open>One reconcile: an error puts the name back into the queue.\<close>

definition policy_result :: "PolicyEnv \<Rightarrow> NamespacedName \<Rightarrow> System \<Rightarrow> System" where
  "policy_result env n s =
     (case PolicyReconcile env (ctrl s) n of
        (err, bc, effs) \<Rightarrow>
          fold (apply_effect env) effs
            (s\<lparr>ctrl := bc, dirtyPolicies :=
                 if err = None then dirtyPolicies s - {n} else insert n (dirtyPolicies s)\<rparr>))"

definition pod_result :: "PodEnv \<Rightarrow> NamespacedName \<Rightarrow> System \<Rightarrow> System" where
  "pod_result env n s =
     (case PodReconcile env (ctrl s) n of
        (err, bc) \<Rightarrow>
          s\<lparr>ctrl := bc, dirtyPods :=
              if err = None then dirtyPods s - {n} else insert n (dirtyPods s)\<rparr>)"

definition reads :: "(NamespacedName \<Rightarrow> go_error + 'a) \<Rightarrow> (NamespacedName \<rightharpoonup> 'a) \<Rightarrow> bool" where
  "reads get objs \<longleftrightarrow>
     (\<forall>m. (\<exists>e. get m = Inl (OtherError e)) \<or>
          (case objs m of None \<Rightarrow> \<exists>e. get m = Inl (NotFound e) | Some x \<Rightarrow> get m = Inr x))"

definition env_laws :: "PolicyEnv \<Rightarrow> bool" where
  "env_laws env \<longleftrightarrow> finalizer_laws env \<and> timeIsZero env = (\<lambda>t. t = None \<or> t = Some 0)"

definition policy_edit_ok :: "NamespacedName \<Rightarrow> DnsPolicy option \<Rightarrow> DnsPolicy option \<Rightarrow> bool" where
  "policy_edit_ok n old new \<longleftrightarrow>
     (\<forall>p. new = Some p \<longrightarrow> policy_wf p \<and> policyKey p = n) \<and>
     (\<forall>p. old = Some p \<longrightarrow> dnsPolicyFinalizer \<in> set (Finalizers (ObjMeta p)) \<longrightarrow>
        (\<exists>q. new = Some q \<and> dnsPolicyFinalizer \<in> set (Finalizers (ObjMeta q))))"

fun change_event :: "Pod option \<Rightarrow> Pod option \<Rightarrow> pod_event" where
  "change_event None new = CreateEvent new"
| "change_event (Some p) None = DeleteEvent (Some p)"
| "change_event (Some p) (Some q) = UpdateEvent (Some p) (Some q)"

definition same_cache :: "BlocklistCache \<Rightarrow> BlocklistCache \<Rightarrow> bool" where
  "same_cache bc bc' \<longleftrightarrow> same_indexes bc bc' \<and> gm_same (entries bc) (entries bc')"

inductive sys_step :: "System \<Rightarrow> System \<Rightarrow> bool" where
  policy_edit: "policy_edit_ok n (clPolicies s n) new \<Longrightarrow>
    sys_step s (s\<lparr>clPolicies := (clPolicies s)(n := new), dirtyPolicies := insert n (dirtyPolicies s)\<rparr>)"
| policy_reconcile: "env_laws env \<Longrightarrow> reads (getPolicy env) (clPolicies s) \<Longrightarrow>
    deletion_agrees env (ctrl s) n \<Longrightarrow> sys_step s (policy_result env n s)"
| pod_edit: "pred_option (\<lambda>p. nm_wf (PodLabels p)) new \<Longrightarrow>
    sys_step s (s\<lparr>clPods := (clPods s)(n := new), dirtyPods :=
      if podEventFilter (change_event (clPods s n) new) then insert n (dirtyPods s) else dirtyPods s\<rparr>)"
| pod_reconcile: "reads (getPod env) (clPods s) \<Longrightarrow>
    (\<And>pod. clPods s n = Some pod \<Longrightarrow> ip_free (podIndex (ctrl s)) n (PodIP pod)) \<Longrightarrow>
    sys_step s (pod_result env n s)"
| reorder: "same_cache (ctrl s) bc \<Longrightarrow> sys_step s (s\<lparr>ctrl := bc\<rparr>)"

definition sys_init :: "System \<Rightarrow> bool" where
  "sys_init s \<longleftrightarrow>
     ctrl s = initial_cache \<and> dirtyPolicies s = dom (clPolicies s) \<and>
     dirtyPods s = {n. \<exists>p. clPods s n = Some p \<and> podEventFilter (CreateEvent (Some p))} \<and>
     (\<forall>n p. clPolicies s n = Some p \<longrightarrow> policy_wf p \<and> policyKey p = n) \<and>
     (\<forall>n p. clPods s n = Some p \<longrightarrow> nm_wf (PodLabels p))"

inductive reachable :: "System \<Rightarrow> bool" where
  reach_init: "sys_init s \<Longrightarrow> reachable s"
| reach_step: "reachable s \<Longrightarrow> sys_step s s' \<Longrightarrow> reachable s'"

section \<open>Invariant\<close>

abbreviation idxPolicies :: "System \<Rightarrow> NamespacedName \<rightharpoonup> DnsPolicy" where
  "idxPolicies s \<equiv> gm_get (policies (policyIndex (ctrl s)))"

abbreviation idxPods :: "System \<Rightarrow> NamespacedName \<rightharpoonup> PodInfo" where
  "idxPods s \<equiv> gm_get (pods (podIndex (ctrl s)))"

definition cluster_wf :: "System \<Rightarrow> bool" where
  "cluster_wf s \<longleftrightarrow>
     (\<forall>n p. clPolicies s n = Some p \<longrightarrow> policy_wf p \<and> policyKey p = n) \<and>
     (\<forall>n p. clPods s n = Some p \<longrightarrow> nm_wf (PodLabels p))"

definition ctrl_ok :: "BlocklistCache \<Rightarrow> bool" where
  "ctrl_ok bc \<longleftrightarrow> cache_inv bc \<and> coherent bc \<and> rev_complete (podIndex bc)"

text \<open>An indexed policy exists and carries the finalizer.\<close>

definition backed :: "System \<Rightarrow> bool" where
  "backed s \<longleftrightarrow>
     (\<forall>n q. idxPolicies s n = Some q \<longrightarrow>
        (\<exists>p. clPolicies s n = Some p \<and> dnsPolicyFinalizer \<in> set (Finalizers (ObjMeta p))))"

definition live_policy :: "DnsPolicy option \<Rightarrow> DnsPolicy option" where
  "live_policy x =
     (case x of
        None \<Rightarrow> None
      | Some p \<Rightarrow> (if DeletionTimestamp (ObjMeta p) = None \<or> DeletionTimestamp (ObjMeta p) = Some 0
                   then Some p else None))"

definition policies_synced :: "System \<Rightarrow> bool" where
  "policies_synced s \<longleftrightarrow> (\<forall>n. n \<notin> dirtyPolicies s \<longrightarrow> idxPolicies s n = live_policy (clPolicies s n))"

definition pod_matches :: "PodInfo \<Rightarrow> Pod \<Rightarrow> bool" where
  "pod_matches i p \<longleftrightarrow> IP i = PodIP p \<and> nm_get (Labels i) = nm_get (PodLabels p)"

definition pod_synced :: "PodInfo option \<Rightarrow> Pod option \<Rightarrow> bool" where
  "pod_synced i x \<longleftrightarrow>
     (case x of
        None \<Rightarrow> i = None
      | Some p \<Rightarrow>
          (case i of
             None \<Rightarrow> PodIP p = [] \<or> Phase p \<noteq> PodRunning
           | Some j \<Rightarrow> PodIP p = [] \<or> pod_matches j p))"

definition pods_synced :: "System \<Rightarrow> bool" where
  "pods_synced s \<longleftrightarrow> (\<forall>n. n \<notin> dirtyPods s \<longrightarrow> pod_synced (idxPods s n) (clPods s n))"

definition sys_inv :: "System \<Rightarrow> bool" where
  "sys_inv s \<longleftrightarrow>
     cluster_wf s \<and> ctrl_ok (ctrl s) \<and> backed s \<and> policies_synced s \<and> pods_synced s"

section \<open>The invariant holds initially and is preserved\<close>

lemma ctrl_ok_initial: "ctrl_ok initial_cache"
  by (auto simp: ctrl_ok_def initial_cache_def NewBlocklistCache_def cache_inv_def coherent_def
      expected_def PodIndex_GetByIP_def fun_eq_iff) (simp_all add: NewPodIndex_def)

lemma sys_inv_init: "sys_init s \<Longrightarrow> sys_inv s"
  using ctrl_ok_initial
  by (auto simp: sys_init_def sys_inv_def cluster_wf_def backed_def policies_synced_def pods_synced_def
      pod_synced_def live_policy_def initial_cache_def NewBlocklistCache_def NewPodIndex_def
      NewPolicyIndex_def Let_def split: option.split)

lemma sys_inv_policy_edit:
  assumes "sys_inv s" and "policy_edit_ok n (clPolicies s n) new"
  shows "sys_inv (s\<lparr>clPolicies := (clPolicies s)(n := new), dirtyPolicies := insert n (dirtyPolicies s)\<rparr>)"
proof -
  have "backed (s\<lparr>clPolicies := (clPolicies s)(n := new), dirtyPolicies := insert n (dirtyPolicies s)\<rparr>)"
    using assms by (fastforce simp: sys_inv_def backed_def policy_edit_ok_def)
  with assms show ?thesis
    by (auto simp: sys_inv_def cluster_wf_def policies_synced_def pods_synced_def policy_edit_ok_def)
qed

lemma pod_synced_dropped:
  assumes "pod_synced i old" and "pred_option (\<lambda>p. nm_wf (PodLabels p)) old"
    and "pred_option (\<lambda>p. nm_wf (PodLabels p)) new" and "\<not> podEventFilter (change_event old new)"
  shows "pod_synced i new"
proof (cases old)
  case None
  with assms(1,4) show ?thesis by (cases new) (auto simp: pod_synced_def)
next
  case (Some o')
  then obtain p where p: "new = Some p" using assms(4) by (cases new) auto
  have "\<not> podEventFilter (UpdateEvent (Some o') (Some p))" "nm_wf (PodLabels o')" "nm_wf (PodLabels p)"
    using assms Some p by simp_all
  note filter_dropped [OF this]
  with assms(1) Some p show ?thesis
    by (auto simp: pod_synced_def pod_matches_def split: option.splits)
qed

lemma sys_inv_pod_edit:
  assumes "sys_inv s" and "pred_option (\<lambda>p. nm_wf (PodLabels p)) new"
  shows "sys_inv (s\<lparr>clPods := (clPods s)(n := new), dirtyPods :=
      if podEventFilter (change_event (clPods s n) new) then insert n (dirtyPods s) else dirtyPods s\<rparr>)"
proof -
  have "pred_option (\<lambda>p. nm_wf (PodLabels p)) (clPods s n)"
    using assms(1) by (auto simp: sys_inv_def cluster_wf_def option.pred_set)
  then have "pod_synced (idxPods s n) new"
    if "n \<notin> dirtyPods s" "\<not> podEventFilter (change_event (clPods s n) new)"
    using that assms pod_synced_dropped [of "idxPods s n" "clPods s n" new]
    by (auto simp: sys_inv_def pods_synced_def)
  with assms show ?thesis
    by (auto simp: sys_inv_def cluster_wf_def policies_synced_def pods_synced_def backed_def)
qed

lemma same_cache_get:
  assumes ci: "cache_inv bc" and same: "same_cache bc bc'"
  shows "gm_get (pods (podIndex bc')) = gm_get (pods (podIndex bc))"
    and "gm_get (ipToPod (podIndex bc')) = gm_get (ipToPod (podIndex bc))"
    and "gm_get (policies (policyIndex bc')) = gm_get (policies (policyIndex bc))"
    and "gm_get (entries bc') = gm_get (entries bc)"
    and "cache_inv bc'"
proof -
  from ci have wf: "gm_wf (pods (podIndex bc))" "gm_wf (ipToPod (podIndex bc))"
    "gm_wf (policies (policyIndex bc))" "gm_wf (entries bc)"
    by (simp_all add: cache_inv_def podindex_inv_def policyindex_inv_def)
  then show eq: "gm_get (pods (podIndex bc')) = gm_get (pods (podIndex bc))"
    "gm_get (ipToPod (podIndex bc')) = gm_get (ipToPod (podIndex bc))"
    "gm_get (policies (policyIndex bc')) = gm_get (policies (policyIndex bc))"
    "gm_get (entries bc') = gm_get (entries bc)"
    using same by (auto simp: same_cache_def same_indexes_def intro: gm_same_get [symmetric])
  have "gm_wf (pods (podIndex bc'))" "gm_wf (ipToPod (podIndex bc'))"
    "gm_wf (policies (policyIndex bc'))" "gm_wf (entries bc')"
    using wf same by (auto simp: same_cache_def same_indexes_def dest: gm_same_wf)
  then show "cache_inv bc'"
    using ci by (simp add: cache_inv_def podindex_inv_def policyindex_inv_def eq)
qed

lemma sys_inv_reorder:
  assumes inv: "sys_inv s" and same: "same_cache (ctrl s) bc"
  shows "sys_inv (s\<lparr>ctrl := bc\<rparr>)"
proof -
  have ci: "cache_inv (ctrl s)" using inv by (simp add: sys_inv_def ctrl_ok_def)
  note eq = same_cache_get(1-4) [OF ci same] and ci' = same_cache_get(5) [OF ci same]
  have "coherent bc"
    using inv expected_same_indexes [of "ctrl s" bc] ci ci' same
    by (simp add: coherent_def sys_inv_def ctrl_ok_def same_cache_def eq)
  then show ?thesis
    using inv ci'
    by (simp add: sys_inv_def ctrl_ok_def rev_complete_def backed_def policies_synced_def
        pods_synced_def cluster_wf_def eq)
qed

text \<open>Pod reconciles.\<close>

lemma readsD:
  assumes "reads get objs"
  shows "get m = Inl (NotFound e) \<Longrightarrow> objs m = None" and "get m = Inr x \<Longrightarrow> objs m = Some x"
proof -
  from assms have "(\<exists>e. get m = Inl (OtherError e)) \<or>
      (case objs m of None \<Rightarrow> \<exists>e. get m = Inl (NotFound e) | Some x \<Rightarrow> get m = Inr x)"
    by (simp add: reads_def)
  then show "get m = Inl (NotFound e) \<Longrightarrow> objs m = None" and "get m = Inr x \<Longrightarrow> objs m = Some x"
    by (auto split: option.splits)
qed

lemma idxPods_reconciled:
  "gm_get (pods (podIndex (pod_reconciled env bc n))) =
     (case getPod env n of
        Inl (NotFound _) \<Rightarrow> (gm_get (pods (podIndex bc)))(n := None)
      | Inl err \<Rightarrow> gm_get (pods (podIndex bc))
      | Inr pod \<Rightarrow> (if PodIP pod = [] then gm_get (pods (podIndex bc))
                    else (gm_get (pods (podIndex bc)))(n \<mapsto> copyPodInfo (podInfo_of pod))))"
  by (auto simp: PodReconcile_eq pods_Delete gomap_simps split: sum.split go_error.split)

lemma PodReconcile_policyIndex [simp]: "policyIndex (pod_reconciled env bc n) = policyIndex bc"
  by (auto simp: PodReconcile_eq split: sum.split go_error.split)

lemma pod_matches_copy: "nm_wf (PodLabels p) \<Longrightarrow> pod_matches (copyPodInfo (podInfo_of p)) p"
  by (simp add: pod_matches_def podInfo_of_def)

lemma pods_synced_reconciled:
  assumes inv: "sys_inv s" and reads: "reads (getPod env) (clPods s)"
    and none: "fst (PodReconcile env (ctrl s) n) = None"
  shows "pod_synced (gm_get (pods (podIndex (pod_reconciled env (ctrl s) n))) n) (clPods s n)"
proof (cases "getPod env n")
  case (Inl e)
  with none obtain m where "getPod env n = Inl (NotFound m)"
    by (cases e) (auto simp: PodReconcile_eq)
  with readsD(1) [OF reads this] show ?thesis by (simp add: idxPods_reconciled pod_synced_def)
next
  case (Inr p)
  note obj = readsD(2) [OF reads Inr]
  then have wf: "nm_wf (PodLabels p)" using inv by (auto simp: sys_inv_def cluster_wf_def)
  show ?thesis
    by (cases "PodIP p = []")
      (simp_all add: idxPods_reconciled Inr obj pod_synced_def pod_matches_copy wf split: option.split)
qed

lemma sys_inv_pod_reconcile:
  assumes inv: "sys_inv s" and reads: "reads (getPod env) (clPods s)"
    and free: "\<And>pod. clPods s n = Some pod \<Longrightarrow> ip_free (podIndex (ctrl s)) n (PodIP pod)"
  shows "sys_inv (pod_result env n s)"
proof -
  let ?bc = "pod_reconciled env (ctrl s) n"
  have ok: "ctrl_ok ?bc"
    using inv free readsD(2) [OF reads]
    by (auto simp: sys_inv_def ctrl_ok_def intro: wf_intros coherent_PodReconcile rev_complete_PodReconcile)
  have other: "gm_get (pods (podIndex ?bc)) m = idxPods s m" if "m \<noteq> n" for m
    using that by (auto simp: idxPods_reconciled split: sum.split go_error.split)
  have "pod_synced (gm_get (pods (podIndex ?bc)) m) (clPods s m)"
    if "m \<notin> dirtyPods (pod_result env n s)" for m
    using that inv other [of m] pods_synced_reconciled [OF inv reads]
    by (cases "m = n") (auto simp: pod_result_def case_prod_unfold sys_inv_def pods_synced_def split: if_splits)
  with inv ok show ?thesis
    by (auto simp: sys_inv_def cluster_wf_def policies_synced_def pods_synced_def backed_def pod_result_def
        case_prod_unfold)
qed

abbreviation has_finalizer :: "DnsPolicy \<Rightarrow> bool" where
  "has_finalizer p \<equiv> dnsPolicyFinalizer \<in> set (Finalizers (ObjMeta p))"

text \<open>Policy reconciles: what the accepted calls of a reconcile do to the stored objects.\<close>

definition sent :: "effect list \<Rightarrow> DnsPolicy set" where
  "sent effs = {q. ApiUpdate q \<in> set effs \<or> ApiStatusUpdate q \<in> set effs}"

lemma sent_simps [simp]:
  "sent [] = {}" "sent (Event k r m # effs) = sent effs"
  "sent (ApiUpdate q # effs) = insert q (sent effs)"
  "sent (ApiStatusUpdate q # effs) = insert q (sent effs)"
  by (auto simp: sent_def)

lemma store_policy_frame [simp]:
  "ctrl (store_policy env q s) = ctrl s" "clPods (store_policy env q s) = clPods s"
  "dirtyPods (store_policy env q s) = dirtyPods s"
  by (simp_all add: store_policy_def)

lemma apply_effect_frame [simp]:
  "ctrl (apply_effect env e s) = ctrl s" "clPods (apply_effect env e s) = clPods s"
  "dirtyPods (apply_effect env e s) = dirtyPods s"
  by (cases e; simp)+

lemma fold_effects_frame [simp]:
  "ctrl (fold (apply_effect env) effs s) = ctrl s" "clPods (fold (apply_effect env) effs s) = clPods s"
  "dirtyPods (fold (apply_effect env) effs s) = dirtyPods s"
  by (induction effs arbitrary: s) simp_all

lemma effect_induct [case_names Nil Event Update Status]:
  assumes "P []" and "\<And>k r m effs. P effs \<Longrightarrow> P (Event k r m # effs)"
    and "\<And>q effs. P effs \<Longrightarrow> P (ApiUpdate q # effs)"
    and "\<And>q effs. P effs \<Longrightarrow> P (ApiStatusUpdate q # effs)"
  shows "P effs"
proof (induction effs)
  case (Cons e effs)
  then show ?case using assms by (cases e) simp_all
qed (rule assms)

lemma store_policy_wf: "cluster_wf s \<Longrightarrow> policy_wf q \<Longrightarrow> cluster_wf (store_policy env q s)"
  by (simp add: cluster_wf_def store_policy_def)

lemma store_policy_other [simp]:
  "m \<noteq> policyKey q \<Longrightarrow> clPolicies (store_policy env q s) m = clPolicies s m"
  "dirtyPolicies (store_policy env q s) = insert (policyKey q) (dirtyPolicies s)"
  by (simp_all add: store_policy_def)

lemma store_policy_finalizer:
  "has_finalizer q \<Longrightarrow> clPolicies (store_policy env q s) (policyKey q) = Some q"
  by (auto simp: store_policy_def)

lemma fold_effects_wf:
  assumes "cluster_wf s" and "\<forall>q \<in> sent effs. policy_wf q"
  shows "cluster_wf (fold (apply_effect env) effs s)"
  using assms
  by (induction effs arbitrary: s rule: effect_induct) (simp_all add: store_policy_wf)

lemma fold_effects_other:
  assumes "\<forall>q \<in> sent effs. policyKey q = n" and "m \<noteq> n"
  shows "clPolicies (fold (apply_effect env) effs s) m = clPolicies s m \<and>
    (m \<in> dirtyPolicies (fold (apply_effect env) effs s) \<longleftrightarrow> m \<in> dirtyPolicies s)"
  using assms by (induction effs arbitrary: s rule: effect_induct) simp_all

lemma fold_effects_dirty:
  "m \<in> dirtyPolicies s \<Longrightarrow> m \<in> dirtyPolicies (fold (apply_effect env) effs s)"
  by (induction effs arbitrary: s rule: effect_induct) simp_all

lemma fold_effects_clean:
  assumes "\<forall>q \<in> sent effs. policyKey q = n" and "n \<notin> dirtyPolicies (fold (apply_effect env) effs s)"
  shows "clPolicies (fold (apply_effect env) effs s) n = clPolicies s n \<and> n \<notin> dirtyPolicies s \<and>
    (\<forall>q. (ApiUpdate q \<in> set effs \<longrightarrow> updatePolicy env q \<noteq> None) \<and>
         (ApiStatusUpdate q \<in> set effs \<longrightarrow> updateStatus env q \<noteq> None))"
  using assms
proof (induction effs arbitrary: s rule: effect_induct)
  case (Update q effs)
  have "updatePolicy env q \<noteq> None"
  proof
    assume "updatePolicy env q = None"
    with Update.prems fold_effects_dirty [of n "store_policy env q s" env effs] show False by simp
  qed
  then obtain err where "updatePolicy env q = Some err" by blast
  with Update.IH [of s] Update.prems show ?case by simp
next
  case (Status q effs)
  have "updateStatus env q \<noteq> None"
  proof
    assume "updateStatus env q = None"
    with Status.prems fold_effects_dirty [of n "store_policy env q s" env effs] show False by simp
  qed
  then obtain err where "updateStatus env q = Some err" by blast
  with Status.IH [of s] Status.prems show ?case by simp
qed simp_all

lemma fold_effects_finalizer:
  assumes "\<exists>p. clPolicies s n = Some p \<and> has_finalizer p"
    and "\<forall>q \<in> sent effs. policyKey q = n \<and> has_finalizer q"
  shows "\<exists>p. clPolicies (fold (apply_effect env) effs s) n = Some p \<and> has_finalizer p"
  using assms
proof (induction effs arbitrary: s rule: effect_induct)
  case (Update q effs)
  then have "\<exists>p. clPolicies (apply_effect env (ApiUpdate q) s) n = Some p \<and> has_finalizer p"
    using store_policy_finalizer [of q env s] by simp
  with Update show ?case by simp
next
  case (Status q effs)
  then have "\<exists>p. clPolicies (apply_effect env (ApiStatusUpdate q) s) n = Some p \<and> has_finalizer p"
    using store_policy_finalizer [of q env s] by simp
  with Status show ?case by simp
qed simp_all

text \<open>What a policy reconcile sends, when the object it read was stored under its own name.\<close>

lemma sent_ok:
  assumes "env_ok env" and "q \<in> sent (reconcile_effects env bc n)"
  shows "policy_wf q \<and> policyKey q = n"
proof (cases "getPolicy env n")
  case (Inl e)
  with assms(2) show ?thesis by (cases e) (auto simp: PolicyReconcile_def sent_def)
next
  case (Inr p)
  then have p: "policy_wf p" "policyKey p = n" using assms(1) by (simp_all add: env_ok_def)
  have "policy_wf (updateCondition env r t st re m) = policy_wf r"
    "policyKey (updateCondition env r t st re m) = policyKey r" for r t st re m
    by (simp_all add: policyKey_def)
  with Inr p assms(2) show ?thesis
    by (auto simp: PolicyReconcile_def sent_def reconcile_updates policyKey_def set_finalizers_def split: if_splits)
qed

lemma indexed_other:
  assumes "env_ok env" and "m \<noteq> n"
  shows "gm_get (policies (policyIndex (reconciled env bc n))) m = gm_get (policies (policyIndex bc)) m"
proof (cases "getPolicy env n")
  case (Inl e)
  with assms(2) show ?thesis by (cases e) (simp_all add: PolicyReconcile_def indexed_not_found)
next
  case (Inr p)
  then have "policy_wf p" "policyKey p = n" using assms(1) by (simp_all add: env_ok_def)
  with Inr assms(2) show ?thesis by (simp add: PolicyReconcile_def reconcile_indexed)
qed

text \<open>A reconcile that neither failed nor changed the object has brought the index up to date.\<close>

lemma reconciled_synced:
  assumes ok: "env_ok env" and laws: "env_laws env" and reads: "reads (getPolicy env) objs"
    and backed: "\<And>q. gm_get (policies (policyIndex bc)) n = Some q \<Longrightarrow> \<exists>p. objs n = Some p \<and> has_finalizer p"
    and err: "fst (PolicyReconcile env bc n) = None"
    and quiet: "\<forall>q. (ApiUpdate q \<in> set (reconcile_effects env bc n) \<longrightarrow> updatePolicy env q \<noteq> None) \<and>
      (ApiStatusUpdate q \<in> set (reconcile_effects env bc n) \<longrightarrow> updateStatus env q \<noteq> None)"
  shows "gm_get (policies (policyIndex (reconciled env bc n))) n = live_policy (objs n)"
proof (cases "getPolicy env n")
  case (Inl e)
  with err obtain m where "getPolicy env n = Inl (NotFound m)"
    by (cases e) (auto simp: PolicyReconcile_def)
  with readsD(1) [OF reads this] show ?thesis
    by (simp add: PolicyReconcile_def indexed_not_found live_policy_def)
next
  case (Inr p)
  note obj = readsD(2) [OF reads Inr]
  have p: "policy_wf p" "policyKey p = n" using ok Inr by (simp_all add: env_ok_def)
  have zero: "timeIsZero env t \<longleftrightarrow> t = None \<or> t = Some 0" and fin: "finalizer_laws env" for t
    using laws by (simp_all add: env_laws_def)
  have rec: "timeIsZero env (DeletionTimestamp (ObjMeta p)) \<Longrightarrow> has_finalizer p \<Longrightarrow>
      PolicyReconcile env bc n = reconcile_invalid env bc p \<or> PolicyReconcile env bc n = reconcile_index env bc p"
    using Inr by (simp add: PolicyReconcile_def finalizer_lawsD [OF fin])
  consider (del) "\<not> timeIsZero env (DeletionTimestamp (ObjMeta p))"
    | (add) "timeIsZero env (DeletionTimestamp (ObjMeta p))" "\<not> has_finalizer p"
    | (inv) "PolicyReconcile env bc n = reconcile_invalid env bc p"
    | (idx) "timeIsZero env (DeletionTimestamp (ObjMeta p))" "PolicyReconcile env bc n = reconcile_index env bc p"
    using rec by blast
  then show ?thesis
  proof cases
    case del
    then have rec: "PolicyReconcile env bc n = reconcile_deleting env bc n p" using Inr by (simp add: PolicyReconcile_def)
    have "gm_get (policies (policyIndex (fst (snd (reconcile_deleting env bc n p))))) n = None"
      using backed obj
      by (cases "gm_get (policies (policyIndex bc)) n") (auto simp: indexed_deleting finalizer_lawsD [OF fin])
    with del show ?thesis by (simp add: rec obj live_policy_def zero)
  next
    case add
    then have rec: "PolicyReconcile env bc n = reconcile_add_finalizer env bc p"
      using Inr by (simp add: PolicyReconcile_def finalizer_lawsD [OF fin])
    then show ?thesis
      using quiet err by (auto simp: updates_add_finalizer) (auto simp: reconcile_add_finalizer_def Let_def)
  next
    case inv
    then show ?thesis using err by (simp add: reconcile_invalid_def)
  next
    case idx
    then show ?thesis using p by (simp add: indexed_index obj live_policy_def zero)
  qed
qed

text \<open>A policy that is indexed after a reconcile keeps its finalizer on the API server.\<close>

lemma reconciled_backed:
  assumes ok: "env_ok env" and laws: "env_laws env" and reads: "reads (getPolicy env) objs"
    and backed: "\<And>q. gm_get (policies (policyIndex bc)) n = Some q \<Longrightarrow> \<exists>p. objs n = Some p \<and> has_finalizer p"
    and q: "gm_get (policies (policyIndex (reconciled env bc n))) n = Some q"
  shows "(\<exists>p. objs n = Some p \<and> has_finalizer p) \<and> (\<forall>r \<in> sent (reconcile_effects env bc n). has_finalizer r)"
proof (cases "getPolicy env n")
  case (Inl e)
  with q backed show ?thesis by (cases e) (auto simp: PolicyReconcile_def indexed_not_found)
next
  case (Inr p)
  note obj = readsD(2) [OF reads Inr]
  have fin: "finalizer_laws env" using laws by (simp add: env_laws_def)
  have p: "policy_wf p" "policyKey p = n" using ok Inr by (simp_all add: env_ok_def)
  have sent: "r \<in> sent (snd (snd (reconcile_index env bc p))) \<Longrightarrow> ObjMeta r = ObjMeta p" for r
    by (auto simp: sent_def reconcile_updates)
  show ?thesis
    using q backed obj Inr sent
    by (auto simp: PolicyReconcile_def reconcile_indexed finalizer_lawsD [OF fin] split: if_splits)
qed

lemma env_ok_reads: "cluster_wf s \<Longrightarrow> reads (getPolicy env) (clPolicies s) \<Longrightarrow> env_ok env"
  using readsD(2) by (fastforce simp: env_ok_def cluster_wf_def)

lemma sys_inv_policy_reconcile:
  assumes inv: "sys_inv s" and laws: "env_laws env" and reads: "reads (getPolicy env) (clPolicies s)"
    and del: "deletion_agrees env (ctrl s) n"
  shows "sys_inv (policy_result env n s)"
proof -
  let ?effs = "reconcile_effects env (ctrl s) n" and ?bc = "reconciled env (ctrl s) n"
  define s1 where "s1 = s\<lparr>ctrl := ?bc, dirtyPolicies :=
    if fst (PolicyReconcile env (ctrl s) n) = None then dirtyPolicies s - {n} else insert n (dirtyPolicies s)\<rparr>"
  have res: "policy_result env n s = fold (apply_effect env) ?effs s1"
    by (simp add: policy_result_def s1_def case_prod_unfold)
  have ok: "env_ok env" using inv reads by (auto simp: sys_inv_def intro: env_ok_reads)
  have keys: "\<forall>q \<in> sent ?effs. policyKey q = n" and wfs: "\<forall>q \<in> sent ?effs. policy_wf q"
    using sent_ok [OF ok] by blast+
  have s1 [simp]: "clPolicies s1 = clPolicies s" "clPods s1 = clPods s" "ctrl s1 = ?bc" "dirtyPods s1 = dirtyPods s"
    by (simp_all add: s1_def)
  have owned: "\<exists>p. clPolicies s m = Some p \<and> has_finalizer p" if "idxPolicies s m = Some q" for m q
    using inv that by (auto simp: sys_inv_def backed_def)
  have other: "gm_get (policies (policyIndex ?bc)) m = idxPolicies s m" if "m \<noteq> n" for m
    using indexed_other [OF ok that] .
  note folds = fold_effects_other [OF keys, of _ env s1]
  have "cluster_wf (policy_result env n s)"
    unfolding res using inv wfs by (intro fold_effects_wf) (simp_all add: sys_inv_def cluster_wf_def)
  moreover have "ctrl_ok (ctrl (policy_result env n s))"
    using inv ok del by (simp add: res sys_inv_def ctrl_ok_def PolicyReconcile_cache_inv coherent_PolicyReconcile)
  moreover have "backed (policy_result env n s)"
    unfolding backed_def
  proof (intro allI impI)
    fix m q
    assume "idxPolicies (policy_result env n s) m = Some q"
    then have q: "gm_get (policies (policyIndex ?bc)) m = Some q" by (simp add: res)
    show "\<exists>p. clPolicies (policy_result env n s) m = Some p \<and> has_finalizer p"
    proof (cases "m = n")
      case True
      with reconciled_backed [OF ok laws reads owned] q keys show ?thesis
        unfolding res by (intro fold_effects_finalizer) auto
    next
      case False
      with q other owned folds show ?thesis by (simp add: res)
    qed
  qed
  moreover have "policies_synced (policy_result env n s)"
    unfolding policies_synced_def
  proof (intro allI impI)
    fix m
    assume m: "m \<notin> dirtyPolicies (policy_result env n s)"
    show "idxPolicies (policy_result env n s) m = live_policy (clPolicies (policy_result env n s) m)"
    proof (cases "m = n")
      case True
      with fold_effects_clean [OF keys, of env s1] m
      have clean: "clPolicies (policy_result env n s) n = clPolicies s n" "fst (PolicyReconcile env (ctrl s) n) = None"
        "\<forall>q. (ApiUpdate q \<in> set ?effs \<longrightarrow> updatePolicy env q \<noteq> None) \<and>
          (ApiStatusUpdate q \<in> set ?effs \<longrightarrow> updateStatus env q \<noteq> None)"
        by (auto simp: res s1_def split: if_splits)
      from reconciled_synced [OF ok laws reads owned clean(2,3)] True clean(1) show ?thesis by (simp add: res)
    next
      case False
      with m folds have "m \<notin> dirtyPolicies s" by (auto simp: res s1_def split: if_splits)
      with False folds other inv show ?thesis by (simp add: res sys_inv_def policies_synced_def)
    qed
  qed
  moreover have "pods_synced (policy_result env n s)"
    using inv by (simp add: res sys_inv_def pods_synced_def)
  ultimately show ?thesis by (simp add: sys_inv_def)
qed

lemma sys_inv_step:
  assumes "sys_step s s'" and "sys_inv s"
  shows "sys_inv s'"
  using assms
proof (induction rule: sys_step.induct)
  case (policy_edit n s new)
  then show ?case by (intro sys_inv_policy_edit)
next
  case (policy_reconcile env s n)
  then show ?case by (intro sys_inv_policy_reconcile)
next
  case (pod_edit new s n)
  then show ?case by (intro sys_inv_pod_edit)
next
  case (pod_reconcile env s n)
  then show ?case by (intro sys_inv_pod_reconcile)
next
  case (reorder s bc)
  then show ?case by (intro sys_inv_reorder)
qed

lemma sys_inv_reachable: "reachable s \<Longrightarrow> sys_inv s"
  by (induction rule: reachable.induct) (auto intro: sys_inv_init sys_inv_step)

section \<open>A run of the system\<close>

text \<open>One policy that carries the finalizer and one running pod that it selects; both are reconciled.\<close>

definition settled_policy :: DnsPolicy where
  "settled_policy = sample_policy\<lparr>Status := (Status sample_policy)\<lparr>ObservedGeneration := 1\<rparr>\<rparr>"

definition start :: System where
  "start = \<lparr>clPolicies = [policyKey settled_policy \<mapsto> settled_policy], clPods = [web \<mapsto> relabelled_pod PodRunning],
     ctrl = initial_cache, dirtyPolicies = {policyKey settled_policy}, dirtyPods = {web}\<rparr>"

definition start_pod_env :: PodEnv where
  "start_pod_env = \<lparr>getPod = (\<lambda>n. if n = web then Inr (relabelled_pod PodRunning) else Inl (NotFound []))\<rparr>"

definition finish :: System where
  "finish = pod_result start_pod_env web
     (policy_result (sample_env (Some settled_policy)) (policyKey settled_policy) start)"

lemma settled_step:
  "policy_result (sample_env (Some settled_policy)) (policyKey settled_policy) start =
     start\<lparr>ctrl := reconciled (sample_env (Some settled_policy)) initial_cache (policyKey settled_policy),
           dirtyPolicies := {}\<rparr>"
proof -
  let ?env = "sample_env (Some settled_policy)"
  have "PolicyReconcile ?env bc (policyKey settled_policy) = reconcile_index ?env bc settled_policy" for bc
    by (simp add: PolicyReconcile_def sample_env_def)
      (simp add: settled_policy_def sample_policy_def dnsPolicyFinalizer_def)
  moreover have "reconcile_status ?env settled_policy = (None, [])"
    by (simp add: reconcile_status_def) (simp add: settled_policy_def sample_policy_def)
  ultimately show ?thesis
    by (simp add: policy_result_def case_prod_unfold effects_index)
      (simp add: reconcile_index_def case_prod_unfold Let_def start_def)
qed

lemma finish_eq:
  "clPolicies finish = [policyKey settled_policy \<mapsto> settled_policy]"
  "clPods finish = [web \<mapsto> relabelled_pod PodRunning]" "dirtyPolicies finish = {}" "dirtyPods finish = {}"
  by (simp_all add: finish_def settled_step pod_result_def case_prod_unfold)
    (simp_all add: start_def PodReconcile_eq start_pod_env_def)

lemma start_reachable: "reachable start"
proof (rule reach_init)
  show "sys_init start"
    by (auto simp: sys_init_def start_def split: if_splits)
      (simp_all add: relabelled_pod_def settled_policy_def sample_policy_def spec_wf_def)
qed

lemma finish_reachable: "reachable finish"
proof -
  let ?env = "sample_env (Some settled_policy)" and ?k = "policyKey settled_policy"
  note start_reachable
  moreover have "sys_step start (policy_result ?env ?k start)"
  proof (rule policy_reconcile)
    show "env_laws ?env" by (simp add: env_laws_def) (simp add: sample_env_def)
    show "reads (getPolicy ?env) (clPolicies start)" by (simp add: reads_def start_def sample_env_def)
    show "deletion_agrees ?env (ctrl start) ?k"
      by (rule sample_deletion_agrees) (simp add: settled_policy_def sample_policy_def)
  qed
  ultimately have "reachable (policy_result ?env ?k start)" by (rule reach_step)
  moreover have "sys_step (policy_result ?env ?k start) finish"
    unfolding finish_def
  proof (rule pod_reconcile)
    show "reads (getPod start_pod_env) (clPods (policy_result ?env ?k start))"
      unfolding settled_step by (simp add: reads_def start_def start_pod_env_def)
    show "ip_free (podIndex (ctrl (policy_result ?env ?k start))) web (PodIP pod)" for pod :: Pod
      unfolding settled_step by (simp add: ip_free_def initial_cache_def NewBlocklistCache_def NewPodIndex_def)
  qed
  ultimately show ?thesis by (rule reach_step)
qed

section \<open>Properties\<close>



text \<open>
  C12: a policy is enforced only while it exists: in every reachable state each indexed policy has
  an object on the API server that carries the controller's finalizer. So the object of a policy
  that is still enforced cannot disappear.
\<close>

theorem indexed_policy_exists_with_finalizer:
  assumes "reachable s" and "PolicyIndex_Get (policyIndex (ctrl s)) n = Some q"
  shows "\<exists>p. clPolicies s n = Some p \<and> dnsPolicyFinalizer \<in> set (Finalizers (ObjMeta p))"
  using sys_inv_reachable [OF assms(1)] assms(2)
  by (auto simp: sys_inv_def ctrl_ok_def backed_def cache_Get)

theorem indexed_policy_exists_with_finalizer_witness:
  "PolicyIndex_Get (policyIndex (ctrl finish)) (policyKey settled_policy) = Some settled_policy \<and>
   (\<exists>p. clPolicies finish (policyKey settled_policy) = Some p \<and>
      dnsPolicyFinalizer \<in> set (Finalizers (ObjMeta p)))"
proof -
  have inv: "sys_inv finish" by (rule sys_inv_reachable [OF finish_reachable])
  have "PolicyIndex_Get (policyIndex (ctrl finish)) (policyKey settled_policy) = Some settled_policy"
    using inv by (simp add: sys_inv_def ctrl_ok_def cache_Get policies_synced_def finish_eq)
      (simp add: live_policy_def settled_policy_def sample_policy_def)
  with indexed_policy_exists_with_finalizer [OF finish_reachable] show ?thesis by blast
qed

definition quiescent :: "System \<Rightarrow> bool" where
  "quiescent s \<longleftrightarrow> dirtyPolicies s = {} \<and> dirtyPods s = {}"

text \<open>What the objects of the cluster ask for: the domains that live policies block for a pod.\<close>

definition cluster_blocks :: "System \<Rightarrow> Pod \<Rightarrow> string set" where
  "cluster_blocks s p =
     {d. \<exists>m q. live_policy (clPolicies s m) = Some q \<and> nm_list (TargetSelector (Spec q)) \<noteq> [] \<and>
        nm_get (TargetSelector (Spec q)) \<subseteq>\<^sub>m nm_get (PodLabels p) \<and> d \<in> set (sl_list (BlockList (Spec q)))}"

lemma quiescent_indexes:
  assumes "sys_inv s" and "quiescent s"
  shows "PolicyIndex_Get (policyIndex (ctrl s)) m = live_policy (clPolicies s m)"
    and "pod_synced (PodIndex_Get (podIndex (ctrl s)) n) (clPods s n)"
  using assms
  by (simp_all add: sys_inv_def ctrl_ok_def policies_synced_def pods_synced_def quiescent_def cache_Get
      PodIndex_Get_eq cache_inv_pods)

lemma sys_inv_cache:
  assumes "sys_inv s"
  shows "cache_inv (ctrl s)" and "rev_complete (podIndex (ctrl s))" and "coherent (ctrl s)"
  using assms by (simp_all add: sys_inv_def ctrl_ok_def)

lemma quiescent_blocks:
  assumes inv: "sys_inv s" and quiet: "quiescent s"
    and p: "clPods s n = Some p" "Phase p = PodRunning" "PodIP p \<noteq> []"
  shows "(\<exists>e \<in> set (GetBlocklist (ctrl s)). entryIP e = PodIP p \<and> d \<in> set (Domains e)) \<longleftrightarrow> d \<in> cluster_blocks s p"
proof -
  note ok = sys_inv_cache [OF inv] and indexes = quiescent_indexes [OF inv quiet]
  obtain i where i: "PodIndex_Get (podIndex (ctrl s)) n = Some i" "IP i = PodIP p"
    "nm_get (Labels i) = nm_get (PodLabels p)"
    using indexes(2) [of n] p by (auto simp: pod_synced_def pod_matches_def split: option.splits)
  then have only: "PodIndex_Get (podIndex (ctrl s)) m = Some j \<and> IP j = PodIP p \<longleftrightarrow> m = n \<and> j = i" for m j
    using ok rev_complete_unique [of "podIndex (ctrl s)" m j n i] by (auto simp: PodIndex_Get_eq cache_inv_pods)
  have "(\<exists>e \<in> set (GetBlocklist (ctrl s)). entryIP e = PodIP p \<and> d \<in> set (Domains e)) \<longleftrightarrow>
    (\<exists>n' j m q. (PodIndex_Get (podIndex (ctrl s)) n' = Some j \<and> IP j = PodIP p) \<and>
        live_policy (clPolicies s m) = Some q \<and> nm_list (TargetSelector (Spec q)) \<noteq> [] \<and>
        nm_get (TargetSelector (Spec q)) \<subseteq>\<^sub>m nm_get (Labels j) \<and> d \<in> set (sl_list (BlockList (Spec q))))"
    unfolding served_iff [OF ok] indexes(1) using p(3) by blast
  then show ?thesis unfolding only by (auto simp: i(3) cluster_blocks_def)
qed

lemma quiescent_served_pod:
  assumes inv: "sys_inv s" and quiet: "quiescent s" and e: "e \<in> set (GetBlocklist (ctrl s))"
  shows "\<exists>n p. clPods s n = Some p \<and> (PodIP p = entryIP e \<or> PodIP p = [])"
proof -
  note ok = sys_inv_cache [OF inv]
  have "hd (Domains e) \<in> set (Domains e)" using cacheb.entry [OF ok(1) e] by simp
  with e have "\<exists>n i. PodIndex_Get (podIndex (ctrl s)) n = Some i \<and> IP i = entryIP e"
    using served_iff [OF ok, of "entryIP e" "hd (Domains e)"] by blast
  then obtain n i where i: "PodIndex_Get (podIndex (ctrl s)) n = Some i" "IP i = entryIP e" by blast
  with quiescent_indexes(2) [OF inv quiet, of n]
  obtain p where "clPods s n = Some p" "PodIP p = entryIP e \<or> PodIP p = []"
    by (cases "clPods s n") (auto simp: pod_synced_def pod_matches_def)
  then show ?thesis by blast
qed



end
