(* ===== verification/Concurrent_Workers.thy ===== *)
theory Concurrent_Workers
  imports Controller_System
begin

text \<open>
  The two controllers run side by side: the manager gives each one worker, which reconciles one
  object after the other, and both work on the same indexes and the same cache. The theories
  before this one take a reconcile as one step. Here a worker moves in steps that end where the
  code releases a mutex: an operation of an index is one step, and so is every part of an operation
  of the cache between two reads of an index; the mutex of the cache is held from the first such
  part to the last (\<open>policy_locked\<close>, \<open>pod_locked\<close>), and a worker that needs it waits. A step
  function per worker follows the code, \<open>work\<close> interleaves them in any way.

  \<open>policy_alone\<close> and \<open>pod_alone\<close> show that a worker that runs without interruption computes the
  reconcile functions. The invariant \<open>workers_inv\<close> says that every entry is right except for pods
  whose recalculation is still ahead of one of the workers.
\<close>

section \<open>The steps of the policy worker\<close>

datatype recalc_job = ForPolicy strmap | ForChange strmap strmap

text \<open>Up to its call of a recalculation, \<open>Reconcile\<close> makes one change of the policy index.\<close>

definition policy_first :: "PolicyEnv \<Rightarrow> PolicyIndex \<Rightarrow> NamespacedName \<Rightarrow> PolicyIndex \<times> recalc_job option" where
  "policy_first env idx req =
     (case getPolicy env req of
        Inl (NotFound _) \<Rightarrow>
          (let (oldSelector, idx1) = PolicyIndex_Delete idx req
           in (idx1, if oldSelector \<noteq> None \<and> nm_len oldSelector > 0 then Some (ForPolicy oldSelector) else None))
      | Inl err \<Rightarrow> (idx, None)
      | Inr policy \<Rightarrow>
          if \<not> timeIsZero env (DeletionTimestamp (ObjMeta policy))
          then (if containsFinalizer env (Finalizers (ObjMeta policy)) dnsPolicyFinalizer
                then let oldSelector = TargetSelector (Spec policy)
                     in (snd (PolicyIndex_Delete idx req),
                         if nm_len oldSelector > 0 then Some (ForPolicy oldSelector) else None)
                else (idx, None))
          else if \<not> containsFinalizer env (Finalizers (ObjMeta policy)) dnsPolicyFinalizer then (idx, None)
          else if nm_len (TargetSelector (Spec policy)) = 0 then (idx, None)
          else let (oldSelector, idx1) = PolicyIndex_Upsert idx policy
               in (idx1, Some (if oldSelector \<noteq> None \<and> \<not> selectorsEqual oldSelector (TargetSelector (Spec policy))
                               then ForChange oldSelector (TargetSelector (Spec policy))
                               else ForPolicy (TargetSelector (Spec policy)))))"

datatype policy_pc =
    PolicyIdle
  | PolicyWaiting recalc_job
  | PolicySecond strmap "(string, PodInfo) gomap"
  | PolicyLoop "PodInfo list"
  | PolicyComputing PodInfo "DnsPolicy list" "PodInfo list"

definition job_pc :: "recalc_job option \<Rightarrow> policy_pc" where
  "job_pc job = (case job of None \<Rightarrow> PolicyIdle | Some j \<Rightarrow> PolicyWaiting j)"

definition entry_from :: "PodInfo \<Rightarrow> DnsPolicy list \<Rightarrow> BlocklistEntry" where
  "entry_from pod ps =
     \<lparr>entryIP = IP pod, Domains = sort (map fst (collect_domains (Labels pod) ps []))\<rparr>"

definition put_entry :: "PodInfo \<Rightarrow> DnsPolicy list \<Rightarrow> BlocklistCache \<Rightarrow> BlocklistCache" where
  "put_entry pod ps bc = bc\<lparr>entries := gm_put (IP pod) (entry_from pod ps) (entries bc)\<rparr>"

fun policy_step :: "BlocklistCache \<Rightarrow> policy_pc \<Rightarrow> BlocklistCache \<times> policy_pc" where
  "policy_step bc PolicyIdle = (bc, PolicyIdle)"
| "policy_step bc (PolicyWaiting (ForPolicy sel)) =
     (bc, if nm_len sel = 0 then PolicyIdle
          else PolicyLoop (PodIndex_GetPodsMatchingSelector (podIndex bc) sel))"
| "policy_step bc (PolicyWaiting (ForChange old new)) =
     (bc, PolicySecond new
       (if nm_len old > 0 then add_affected (PodIndex_GetPodsMatchingSelector (podIndex bc) old) [] else []))"
| "policy_step bc (PolicySecond new aff) =
     (bc, PolicyLoop (map snd
       (if nm_len new > 0 then add_affected (PodIndex_GetPodsMatchingSelector (podIndex bc) new) aff else aff)))"
| "policy_step bc (PolicyLoop []) = (bc, PolicyIdle)"
| "policy_step bc (PolicyLoop (pod # rest)) =
     (bc, if IP pod = [] then PolicyLoop rest
          else PolicyComputing pod (PolicyIndex_GetAll (policyIndex bc)) rest)"
| "policy_step bc (PolicyComputing pod ps rest) = (put_entry pod ps bc, PolicyLoop rest)"

section \<open>The steps of the pod worker\<close>

datatype pod_write = DropPod | KeepPod PodInfo

text \<open>What \<open>Reconcile\<close> sets out to do with the pod that it reads; the branch for pods that do not run is dead.\<close>

definition pod_first :: "PodEnv \<Rightarrow> NamespacedName \<Rightarrow> pod_write option" where
  "pod_first env req =
     (case getPod env req of
        Inl (NotFound _) \<Rightarrow> Some DropPod
      | Inl err \<Rightarrow> None
      | Inr pod \<Rightarrow> if PodIP pod = [] then None else Some (KeepPod (podInfo_of pod)))"

datatype pod_pc =
    PodIdle
  | PodReading NamespacedName pod_write
  | PodRemoving NamespacedName pod_write string
  | PodWriting NamespacedName pod_write
  | PodWaiting NamespacedName
  | PodLoading PodInfo
  | PodComputing PodInfo "DnsPolicy list"

fun pod_step :: "BlocklistCache \<Rightarrow> pod_pc \<Rightarrow> BlocklistCache \<times> pod_pc" where
  "pod_step bc PodIdle = (bc, PodIdle)"
| "pod_step bc (PodReading req wr) =
     (bc, case PodIndex_Get (podIndex bc) req of
            None \<Rightarrow> PodWriting req wr
          | Some existing \<Rightarrow>
              (case wr of
                 DropPod \<Rightarrow> PodRemoving req wr (IP existing)
               | KeepPod info \<Rightarrow> if IP existing \<noteq> IP info then PodRemoving req wr (IP existing)
                                 else PodWriting req wr))"
| "pod_step bc (PodRemoving req wr ip) = (RemovePod bc ip, PodWriting req wr)"
| "pod_step bc (PodWriting req DropPod) = (bc\<lparr>podIndex := PodIndex_Delete (podIndex bc) req\<rparr>, PodIdle)"
| "pod_step bc (PodWriting req (KeepPod info)) =
     (bc\<lparr>podIndex := PodIndex_Upsert (podIndex bc) req info\<rparr>, PodWaiting req)"
| "pod_step bc (PodWaiting req) =
     (bc, case PodIndex_Get (podIndex bc) req of
            None \<Rightarrow> PodIdle
          | Some pod \<Rightarrow> if IP pod = [] then PodIdle else PodLoading pod)"
| "pod_step bc (PodLoading pod) = (bc, PodComputing pod (PolicyIndex_GetAll (policyIndex bc)))"
| "pod_step bc (PodComputing pod ps) = (put_entry pod ps bc, PodIdle)"

section \<open>Interleaving\<close>

record Workers =
  cache :: BlocklistCache
  policyPc :: policy_pc
  podPc :: pod_pc

definition policy_locked :: "policy_pc \<Rightarrow> bool" where
  "policy_locked pc =
     (case pc of PolicySecond _ _ \<Rightarrow> True | PolicyLoop _ \<Rightarrow> True | PolicyComputing _ _ _ \<Rightarrow> True | _ \<Rightarrow> False)"

definition pod_locked :: "pod_pc \<Rightarrow> bool" where
  "pod_locked pc = (case pc of PodLoading _ \<Rightarrow> True | PodComputing _ _ \<Rightarrow> True | _ \<Rightarrow> False)"

definition policy_waits :: "policy_pc \<Rightarrow> bool" where
  "policy_waits pc = (case pc of PolicyWaiting _ \<Rightarrow> True | _ \<Rightarrow> False)"

definition pod_waits :: "pod_pc \<Rightarrow> bool" where
  "pod_waits pc = (case pc of PodRemoving _ _ _ \<Rightarrow> True | PodWaiting _ \<Rightarrow> True | _ \<Rightarrow> False)"

text \<open>
  The rules, for a condition on the changes of pods. The last two say that Go's maps are visited
  in any order.
\<close>

inductive work :: "(PodIndex \<Rightarrow> NamespacedName \<Rightarrow> pod_write \<Rightarrow> bool) \<Rightarrow> Workers \<Rightarrow> Workers \<Rightarrow> bool"
  for allowed where
  policy_begins: "policyPc w = PolicyIdle \<Longrightarrow> env_ok env \<Longrightarrow> deletion_agrees env (cache w) req \<Longrightarrow>
    policy_first env (policyIndex (cache w)) req = (idx, job) \<Longrightarrow>
    work allowed w (w\<lparr>cache := (cache w)\<lparr>policyIndex := idx\<rparr>,
      policyPc := job_pc job\<rparr>)"
| policy_steps: "\<not> (policy_waits (policyPc w) \<and> pod_locked (podPc w)) \<Longrightarrow>
    policy_step (cache w) (policyPc w) = (bc, pc) \<Longrightarrow> work allowed w (w\<lparr>cache := bc, policyPc := pc\<rparr>)"
| pod_begins: "podPc w = PodIdle \<Longrightarrow> pod_first env req = Some wr \<Longrightarrow> allowed (podIndex (cache w)) req wr \<Longrightarrow>
    work allowed w (w\<lparr>podPc := PodReading req wr\<rparr>)"
| pod_steps: "\<not> (pod_waits (podPc w) \<and> policy_locked (policyPc w)) \<Longrightarrow>
    pod_step (cache w) (podPc w) = (bc, pc) \<Longrightarrow> work allowed w (w\<lparr>cache := bc, podPc := pc\<rparr>)"
| other_order: "same_cache (cache w) bc \<Longrightarrow> work allowed w (w\<lparr>cache := bc\<rparr>)"
| other_visits: "policyPc w = PolicyLoop ps \<Longrightarrow> mset ps' = mset ps \<Longrightarrow> work allowed w (w\<lparr>policyPc := PolicyLoop ps'\<rparr>)"

definition idle_workers :: "BlocklistCache \<Rightarrow> Workers" where
  "idle_workers bc = \<lparr>cache = bc, policyPc = PolicyIdle, podPc = PodIdle\<rparr>"

section \<open>A worker alone computes the reconcile function\<close>

definition policy_next :: "BlocklistCache \<times> policy_pc \<Rightarrow> BlocklistCache \<times> policy_pc \<Rightarrow> bool" where
  "policy_next x y \<longleftrightarrow> y = policy_step (fst x) (snd x)"

definition pod_next :: "BlocklistCache \<times> pod_pc \<Rightarrow> BlocklistCache \<times> pod_pc \<Rightarrow> bool" where
  "pod_next x y \<longleftrightarrow> y = pod_step (fst x) (snd x)"

lemma policy_next_trans: "policy_next\<^sup>*\<^sup>* (policy_step bc pc) y \<Longrightarrow> policy_next\<^sup>*\<^sup>* (bc, pc) y"
  by (rule converse_rtranclp_into_rtranclp) (simp_all add: policy_next_def)

lemma pod_next_trans: "pod_next\<^sup>*\<^sup>* (pod_step bc pc) y \<Longrightarrow> pod_next\<^sup>*\<^sup>* (bc, pc) y"
  by (rule converse_rtranclp_into_rtranclp) (simp_all add: pod_next_def)

lemma put_entry_recalculate:
  "IP pod \<noteq> [] \<Longrightarrow> put_entry pod (PolicyIndex_GetAll (policyIndex bc)) bc = recalculatePodInternal bc pod"
  by (simp add: put_entry_def entry_from_def recalculatePodInternal_def)

lemma policy_loop_alone: "policy_next\<^sup>*\<^sup>* (bc, PolicyLoop ps) (recalc_pods ps bc, PolicyIdle)"
proof (induction ps arbitrary: bc)
  case Nil
  show ?case by (rule policy_next_trans) simp
next
  case (Cons pod ps)
  show ?case
  proof (cases "IP pod = []")
    case True
    with Cons [of bc] show ?thesis
      by (intro policy_next_trans) (simp add: recalculatePodInternal_def)
  next
    case False
    then show ?thesis
      using Cons [of "recalculatePodInternal bc pod"]
      by (intro policy_next_trans) (simp, intro policy_next_trans, simp add: put_entry_recalculate)
  qed
qed

fun run_job :: "recalc_job \<Rightarrow> BlocklistCache \<Rightarrow> BlocklistCache" where
  "run_job (ForPolicy sel) bc = RecalculateForPolicy bc sel"
| "run_job (ForChange old new) bc = RecalculateForPolicyChange bc old new"

lemma job_alone: "policy_next\<^sup>*\<^sup>* (bc, PolicyWaiting job) (run_job job bc, PolicyIdle)"
proof (cases job)
  case (ForPolicy sel)
  show ?thesis
    unfolding ForPolicy
    by (rule policy_next_trans) (simp add: RecalculateForPolicy_def policy_loop_alone)
next
  case (ForChange old new)
  show ?thesis
    unfolding ForChange
    by (rule policy_next_trans, simp only: policy_step.simps)
      (rule policy_next_trans, simp only: policy_step.simps run_job.simps RecalculateForPolicyChange_def Let_def
        policy_loop_alone)
qed

lemma policy_first_run:
  assumes "policy_first env (policyIndex bc) req = (idx, job)"
  shows "reconciled env bc req =
    (case job of None \<Rightarrow> bc\<lparr>policyIndex := idx\<rparr> | Some j \<Rightarrow> run_job j (bc\<lparr>policyIndex := idx\<rparr>))"
  using assms
  by (auto simp: policy_first_def PolicyReconcile_def reconcile_states Let_def case_prod_unfold
      RecalculateForPolicy_def split: sum.splits go_error.splits if_splits)

lemma policy_alone:
  assumes "policy_first env (policyIndex bc) req = (idx, job)"
  shows "policy_next\<^sup>*\<^sup>* (bc\<lparr>policyIndex := idx\<rparr>, job_pc job) (reconciled env bc req, PolicyIdle)"
  unfolding policy_first_run [OF assms] by (cases job) (simp_all add: job_pc_def job_alone)

lemma pod_alone:
  assumes "pod_first env req = Some wr"
  shows "pod_next\<^sup>*\<^sup>* (bc, PodReading req wr) (pod_reconciled env bc req, PodIdle)"
proof -
  have calc: "pod_next\<^sup>*\<^sup>* (b, PodWaiting req) (RecalculatePod b req, PodIdle)" for b
  proof (cases "PodIndex_Get (podIndex b) req")
    case None
    then show ?thesis by (intro pod_next_trans) (simp add: RecalculatePod_def)
  next
    case (Some pod)
    show ?thesis
    proof (cases "IP pod = []")
      case True
      with Some show ?thesis
        by (intro pod_next_trans) (simp add: RecalculatePod_def recalculatePodInternal_def)
    next
      case False
      with Some show ?thesis
        by (intro pod_next_trans) (simp, intro pod_next_trans, simp, intro pod_next_trans,
          simp add: RecalculatePod_def put_entry_recalculate)
    qed
  qed
  show ?thesis
  proof (cases wr)
    case DropPod
    with assms show ?thesis
      by (intro pod_next_trans)
        (auto simp: pod_first_def PodReconcile_eq pod_not_found_def Let_def
          intro!: pod_next_trans split: sum.splits go_error.splits if_splits option.split)
  next
    case (KeepPod info)
    with assms have "pod_reconciled env bc req = pod_upsert bc req info"
      by (auto simp: pod_first_def PodReconcile_eq split: sum.splits go_error.splits if_splits)
    then show ?thesis
      unfolding KeepPod
      by (intro pod_next_trans) (auto simp: pod_upsert_def Let_def calc intro!: pod_next_trans split: option.split)
  qed
qed

section \<open>Invariant\<close>

text \<open>
  The changes of pods under which the cache stays right: a pod keeps its IP as long as it is
  indexed, no two pods share one, and a pod whose deletion is processed is not indexed.
\<close>

definition keeps_ip :: "PodIndex \<Rightarrow> NamespacedName \<Rightarrow> pod_write \<Rightarrow> bool" where
  "keeps_ip pi req wr \<longleftrightarrow>
     (case wr of
        DropPod \<Rightarrow> gm_get (pods pi) req = None
      | KeepPod info \<Rightarrow> IP info \<noteq> [] \<and> ip_free pi req (IP info) \<and>
          (\<forall>old. gm_get (pods pi) req = Some old \<longrightarrow> IP old = IP info))"

fun job_selects :: "recalc_job \<Rightarrow> strmap \<Rightarrow> bool" where
  "job_selects (ForPolicy sel) labels = LabelsContainAll labels sel"
| "job_selects (ForChange old new) labels = (LabelsContainAll labels old \<or> LabelsContainAll labels new)"

text \<open>The IPs whose entry a worker is still going to write.\<close>

fun policy_pending :: "PodIndex \<Rightarrow> policy_pc \<Rightarrow> string set" where
  "policy_pending pi PolicyIdle = {}"
| "policy_pending pi (PolicyWaiting job) = IP ` {pod \<in> set (PodIndex_GetAll pi). job_selects job (Labels pod)}"
| "policy_pending pi (PolicySecond new aff) =
     IP ` (snd ` set aff \<union> {pod \<in> set (PodIndex_GetAll pi). LabelsContainAll (Labels pod) new})"
| "policy_pending pi (PolicyLoop ps) = IP ` set ps"
| "policy_pending pi (PolicyComputing pod pols ps) = IP ` set (pod # ps)"

fun pod_pending :: "PodIndex \<Rightarrow> pod_pc \<Rightarrow> string set" where
  "pod_pending pi (PodWaiting req) = IP ` set_option (gm_get (pods pi) req)"
| "pod_pending pi (PodLoading pod) = {IP pod}"
| "pod_pending pi (PodComputing pod pols) = {IP pod}"
| "pod_pending pi pc = {}"

text \<open>A pod that the policy worker has read is still indexed, or the pod worker is about to recalculate its IP.\<close>

definition up_to_date :: "PodIndex \<Rightarrow> pod_pc \<Rightarrow> PodInfo \<Rightarrow> bool" where
  "up_to_date pi pc pod \<longleftrightarrow> PodIndex_GetByIP pi (IP pod) = Some pod \<or> IP pod \<in> pod_pending pi pc"

fun policy_view :: "BlocklistCache \<Rightarrow> pod_pc \<Rightarrow> policy_pc \<Rightarrow> bool" where
  "policy_view bc pc (PolicySecond new aff) \<longleftrightarrow>
     (\<forall>(k, pod) \<in> set aff. IP pod = k \<and> up_to_date (podIndex bc) pc pod)"
| "policy_view bc pc (PolicyLoop ps) \<longleftrightarrow> (\<forall>pod \<in> set ps. up_to_date (podIndex bc) pc pod)"
| "policy_view bc pc (PolicyComputing pod pols ps) \<longleftrightarrow>
     (\<forall>pod \<in> set (pod # ps). up_to_date (podIndex bc) pc pod) \<and> IP pod \<noteq> [] \<and>
     entry_from pod pols = entry_for (policyIndex bc) pod"
| "policy_view bc pc _ \<longleftrightarrow> True"

fun pod_view :: "BlocklistCache \<Rightarrow> policy_pc \<Rightarrow> pod_pc \<Rightarrow> bool" where
  "pod_view bc pc PodIdle \<longleftrightarrow> True"
| "pod_view bc pc (PodReading req wr) \<longleftrightarrow> keeps_ip (podIndex bc) req wr"
| "pod_view bc pc (PodRemoving req wr ip) \<longleftrightarrow> False"
| "pod_view bc pc (PodWriting req wr) \<longleftrightarrow> keeps_ip (podIndex bc) req wr"
| "pod_view bc pc (PodWaiting req) \<longleftrightarrow> (\<exists>pod. gm_get (pods (podIndex bc)) req = Some pod \<and> IP pod \<noteq> [])"
| "pod_view bc pc (PodLoading pod) \<longleftrightarrow> PodIndex_GetByIP (podIndex bc) (IP pod) = Some pod \<and> IP pod \<noteq> []"
| "pod_view bc pc (PodComputing pod pols) \<longleftrightarrow>
     PodIndex_GetByIP (podIndex bc) (IP pod) = Some pod \<and> IP pod \<noteq> [] \<and>
     (entry_from pod pols = entry_for (policyIndex bc) pod \<or> IP pod \<in> policy_pending (podIndex bc) pc)"

definition settled :: "BlocklistCache \<Rightarrow> string \<Rightarrow> bool" where
  "settled bc ip \<longleftrightarrow> gm_get (entries bc) ip = expected (podIndex bc) (policyIndex bc) ip"

definition workers_inv :: "Workers \<Rightarrow> bool" where
  "workers_inv w \<longleftrightarrow>
     cache_inv (cache w) \<and> rev_complete (podIndex (cache w)) \<and>
     \<not> (policy_locked (policyPc w) \<and> pod_locked (podPc w)) \<and>
     policy_view (cache w) (podPc w) (policyPc w) \<and> pod_view (cache w) (policyPc w) (podPc w) \<and>
     (\<forall>ip. ip \<in> policy_pending (podIndex (cache w)) (policyPc w) \<or> ip \<in> pod_pending (podIndex (cache w)) (podPc w) \<or>
        settled (cache w) ip)"

abbreviation at :: "BlocklistCache \<Rightarrow> policy_pc \<Rightarrow> pod_pc \<Rightarrow> Workers" where
  "at bc pc qc \<equiv> \<lparr>cache = bc, policyPc = pc, podPc = qc\<rparr>"

lemma workers_invI:
  assumes "cache_inv bc" and "rev_complete (podIndex bc)" and "\<not> (policy_locked pc \<and> pod_locked qc)"
    and "policy_view bc qc pc" and "pod_view bc pc qc"
    and "\<And>ip. ip \<notin> policy_pending (podIndex bc) pc \<Longrightarrow> ip \<notin> pod_pending (podIndex bc) qc \<Longrightarrow> settled bc ip"
  shows "workers_inv (at bc pc qc)"
  using assms by (auto simp: workers_inv_def)

lemma workers_invD:
  assumes "workers_inv (at bc pc qc)"
  shows "cache_inv bc" and "rev_complete (podIndex bc)" and "\<not> (policy_locked pc \<and> pod_locked qc)"
    and "policy_view bc qc pc" and "pod_view bc pc qc"
    and "ip \<notin> policy_pending (podIndex bc) pc \<Longrightarrow> ip \<notin> pod_pending (podIndex bc) qc \<Longrightarrow> settled bc ip"
  using assms by (auto simp: workers_inv_def)

lemma settled_empty: "cache_inv bc \<Longrightarrow> settled bc []"
  by (cases "gm_get (entries bc) []") (auto simp: settled_def expected_def cache_inv_def entry_ok_def)

lemma entry_from_all: "entry_from pod (PolicyIndex_GetAll idx) = entry_for idx pod"
  by (simp add: entry_from_def entry_for_def sort_distinct_eq gm_wf_collect keys_collect)

lemma entry_ok_entry_from: "IP pod \<noteq> [] \<Longrightarrow> entry_ok (IP pod) (entry_from pod ps)"
  by (simp add: entry_ok_def entry_from_def gm_wf_collect)

lemma cache_inv_put_entry: "cache_inv bc \<Longrightarrow> IP pod \<noteq> [] \<Longrightarrow> cache_inv (put_entry pod ps bc)"
  by (auto simp: cache_inv_def put_entry_def gomap_simps entry_ok_entry_from)

lemma put_entry_indexes [simp]:
  "podIndex (put_entry pod ps bc) = podIndex bc" "policyIndex (put_entry pod ps bc) = policyIndex bc"
  by (simp_all add: put_entry_def)

lemma settled_put_other: "ip \<noteq> IP pod \<Longrightarrow> settled (put_entry pod ps bc) ip \<longleftrightarrow> settled bc ip"
  by (simp add: settled_def put_entry_def gomap_simps)

lemma settled_put_entry:
  assumes "PodIndex_GetByIP (podIndex bc) (IP pod) = Some pod" and "IP pod \<noteq> []"
    and "entry_from pod ps = entry_for (policyIndex bc) pod"
  shows "settled (put_entry pod ps bc) (IP pod)"
  using assms by (simp add: settled_def put_entry_def gomap_simps expected_def)

section \<open>The invariant is preserved\<close>

text \<open>A change of the policy index only moves the domains of pods that its recalculation selects.\<close>

lemma blocked_Delete:
  assumes "cache_inv bc" and "\<not> selects (gm_get (policies (policyIndex bc)) n) labels"
  shows "blocked (set (PolicyIndex_GetAll (snd (PolicyIndex_Delete (policyIndex bc) n)))) labels =
    blocked (set (PolicyIndex_GetAll (policyIndex bc))) labels"
  using assms
  by (intro blocked_change [where n = n and x = None])
    (auto simp: cache_inv_def policyindex_inv_Delete selects_def)

lemma blocked_Upsert:
  assumes "cache_inv bc" and "policy_wf p"
    and "\<not> selects (gm_get (policies (policyIndex bc)) (policyKey p)) labels"
    and "\<not> LabelsContainAll labels (TargetSelector (Spec p))"
  shows "blocked (set (PolicyIndex_GetAll (snd (PolicyIndex_Upsert (policyIndex bc) p)))) labels =
    blocked (set (PolicyIndex_GetAll (policyIndex bc))) labels"
  using assms
  by (intro blocked_change [where n = "policyKey p" and x = "Some p"])
    (auto simp: cache_inv_def policyindex_inv_Upsert selects_def gomap_simps deepcopy_policy_id)

definition job_covers :: "recalc_job option \<Rightarrow> strmap \<Rightarrow> bool" where
  "job_covers job labels \<longleftrightarrow> (case job of None \<Rightarrow> False | Some j \<Rightarrow> job_selects j labels)"

lemma job_covers_for_policy:
  "job_covers (if sel \<noteq> None \<and> nm_len sel > 0 then Some (ForPolicy sel) else None) labels \<longleftrightarrow> LabelsContainAll labels sel"
  "job_covers (if nm_len sel > 0 then Some (ForPolicy sel) else None) labels \<longleftrightarrow> LabelsContainAll labels sel"
  by (cases sel; simp add: job_covers_def)+

text \<open>The three ways to change the index: delete a name, leave all as it is, store a policy.\<close>

lemma policy_first_cases:
  assumes env: "env_ok env" and first: "policy_first env idx0 req = (idx, job)"
  obtains (deleted) sel where "idx = snd (PolicyIndex_Delete idx0 req)"
      "\<And>labels. job_covers job labels \<longleftrightarrow> LabelsContainAll labels sel"
      "sel = fst (PolicyIndex_Delete idx0 req) \<or>
        (\<exists>p. getPolicy env req = Inr p \<and> \<not> timeIsZero env (DeletionTimestamp (ObjMeta p)) \<and> sel = TargetSelector (Spec p))"
    | (unchanged) "idx = idx0" "job = None"
    | (stored) p where "policy_wf p" "policyKey p = req" "idx = snd (PolicyIndex_Upsert idx0 p)"
      "job = Some (if fst (PolicyIndex_Upsert idx0 p) \<noteq> None \<and>
          \<not> selectorsEqual (fst (PolicyIndex_Upsert idx0 p)) (TargetSelector (Spec p))
        then ForChange (fst (PolicyIndex_Upsert idx0 p)) (TargetSelector (Spec p))
        else ForPolicy (TargetSelector (Spec p)))"
proof (cases "getPolicy env req")
  case (Inl err)
  show ?thesis
  proof (cases err)
    case (NotFound m)
    then have "idx = snd (PolicyIndex_Delete idx0 req)"
      "job = (if fst (PolicyIndex_Delete idx0 req) \<noteq> None \<and> nm_len (fst (PolicyIndex_Delete idx0 req)) > 0
        then Some (ForPolicy (fst (PolicyIndex_Delete idx0 req))) else None)"
      using first Inl unfolding policy_first_def Let_def case_prod_unfold by simp_all
    then show ?thesis by (intro deleted [of "fst (PolicyIndex_Delete idx0 req)"]) (simp_all only: job_covers_for_policy simp_thms)
  next
    case (OtherError m)
    then show ?thesis using first Inl by (intro unchanged) (simp_all add: policy_first_def)
  qed
next
  case (Inr p)
  then have wf: "policy_wf p" "policyKey p = req" using env by (simp_all add: env_ok_def)
  show ?thesis
  proof (cases "timeIsZero env (DeletionTimestamp (ObjMeta p))")
    case False
    show ?thesis
    proof (cases "containsFinalizer env (Finalizers (ObjMeta p)) dnsPolicyFinalizer")
      case True
      then have "idx = snd (PolicyIndex_Delete idx0 req)"
        "job = (if nm_len (TargetSelector (Spec p)) > 0 then Some (ForPolicy (TargetSelector (Spec p))) else None)"
        using first Inr False unfolding policy_first_def Let_def by simp_all
      then show ?thesis
        using Inr False by (intro deleted [of "TargetSelector (Spec p)"]) (simp_all only: job_covers_for_policy, blast)
    qed (use first Inr False in \<open>intro unchanged, simp_all add: policy_first_def\<close>)
  next
    case True
    then show ?thesis
      using first Inr stored [OF wf] unchanged
      by (simp add: policy_first_def Let_def case_prod_unfold split: if_splits)
  qed
qed

lemma policy_first_change:
  assumes inv: "cache_inv bc" and env: "env_ok env" and agrees: "deletion_agrees env bc req"
    and first: "policy_first env (policyIndex bc) req = (idx, job)"
  shows "policyindex_inv idx \<and> (\<forall>labels. \<not> job_covers job labels \<longrightarrow>
    blocked (set (PolicyIndex_GetAll idx)) labels = blocked (set (PolicyIndex_GetAll (policyIndex bc))) labels)"
proof -
  have pol: "policyindex_inv (policyIndex bc)" using inv by (simp add: cache_inv_def)
  from env first show ?thesis
  proof (cases rule: policy_first_cases)
    case (deleted sel)
    have "selects (gm_get (policies (policyIndex bc)) req) labels \<Longrightarrow> LabelsContainAll labels sel" for labels
      using deleted(3) deletion_covers [OF inv env agrees] by (auto simp: selects_iff fst_PolicyIndex_Delete)
    then show ?thesis
      using pol blocked_Delete [OF inv, of req] by (auto simp: deleted(1,2) policyindex_inv_Delete)
  next
    case unchanged
    then show ?thesis using pol by simp
  next
    case (stored p)
    have "\<not> selects (gm_get (policies (policyIndex bc)) (policyKey p)) labels \<and>
        \<not> LabelsContainAll labels (TargetSelector (Spec p))" if "\<not> job_covers job labels" for labels
      using that unchanged_selector_covers [OF inv stored(1), of labels]
      by (auto simp: stored(4) job_covers_def selects_iff fst_PolicyIndex_Upsert split: if_splits)
    then show ?thesis
      using blocked_Upsert [OF inv stored(1)] pol by (simp add: stored(3) policyindex_inv_Upsert)
  qed
qed

lemma job_pc_pending:
  "policy_pending pi (job_pc job) = IP ` {pod \<in> set (PodIndex_GetAll pi). job_covers job (Labels pod)}"
  by (cases job) (simp_all add: job_pc_def job_covers_def)

lemma job_pc_view [simp]: "\<not> policy_locked (job_pc job)" "policy_view bc qc (job_pc job)"
  by (cases job; simp add: job_pc_def policy_locked_def)+

lemma GetByIP_indexed:
  assumes "cache_inv bc" and "rev_complete (podIndex bc)" and "PodIndex_GetByIP (podIndex bc) ip = Some pod"
  shows "pod \<in> set (PodIndex_GetAll (podIndex bc))" and "IP pod = ip"
  using assms by (simp_all add: GetByIP_pods cache_inv_def)

lemma inv_policy_begins:
  assumes w: "workers_inv (at bc PolicyIdle qc)"
    and env: "env_ok env" "deletion_agrees env bc req"
    and first: "policy_first env (policyIndex bc) req = (idx, job)"
  shows "workers_inv (at (bc\<lparr>policyIndex := idx\<rparr>) (job_pc job) qc)"
proof -
  note inv = workers_invD(1,2,5) [OF w] and before = workers_invD(6) [OF w, simplified]
  note change = policy_first_change [OF inv(1) env first]
  have same: "entry_for idx pod = entry_for (policyIndex bc) pod"
    if pod: "IP pod \<notin> policy_pending (podIndex bc) (job_pc job)" "PodIndex_GetByIP (podIndex bc) ip = Some pod" for ip pod
  proof -
    have "\<not> job_covers job (Labels pod)"
      using pod(1) GetByIP_indexed(1) [OF inv(1,2) pod(2)] by (auto simp: job_pc_pending)
    then show ?thesis using change by (simp add: entry_for_def)
  qed
  show ?thesis
  proof (rule workers_invI)
    show "cache_inv (bc\<lparr>policyIndex := idx\<rparr>)" using inv(1) change by (simp add: cache_inv_def)
    show "pod_view (bc\<lparr>policyIndex := idx\<rparr>) (job_pc job) qc"
    proof (cases qc)
      case (PodComputing pod pols)
      then show ?thesis using inv(3) same [of pod "IP pod"] by auto
    qed (use inv(3) in simp_all)
    fix ip
    assume ip: "ip \<notin> policy_pending (podIndex (bc\<lparr>policyIndex := idx\<rparr>)) (job_pc job)"
      "ip \<notin> pod_pending (podIndex (bc\<lparr>policyIndex := idx\<rparr>)) qc"
    have "expected (podIndex bc) idx ip = expected (podIndex bc) (policyIndex bc) ip"
    proof (cases "PodIndex_GetByIP (podIndex bc) ip")
      case (Some pod)
      with GetByIP_indexed(2) [OF inv(1,2) Some] same [OF _ Some] ip(1) show ?thesis by (simp add: expected_def)
    qed (simp add: expected_def)
    with before [of ip] ip(2) show "settled (bc\<lparr>policyIndex := idx\<rparr>) ip" by (simp add: settled_def)
  qed (use inv in simp_all)
qed

text \<open>The policy worker: reading the pods to recalculate, and writing their entries.\<close>

lemma matching_up_to_date:
  assumes "cache_inv bc" and "rev_complete (podIndex bc)"
    and "pod \<in> set (PodIndex_GetPodsMatchingSelector (podIndex bc) sel)"
  shows "up_to_date (podIndex bc) qc pod"
proof -
  have "pod \<in> set (PodIndex_GetAll (podIndex bc))" using assms by (simp add: set_Matching cache_inv_def)
  then have "PodIndex_GetByIP (podIndex bc) (IP pod) = Some pod"
    using assms by (simp add: GetByIP_pods cache_inv_def)
  then show ?thesis by (simp add: up_to_date_def)
qed

lemma add_affected_elems:
  assumes "(k, pod) \<in> set (add_affected ps aff)" and "\<forall>(k, pod) \<in> set aff. IP pod = k"
  shows "IP pod = k \<and> (pod \<in> set ps \<or> (k, pod) \<in> set aff)"
  using assms
proof (induction ps arbitrary: aff)
  case (Cons p ps)
  let ?aff = "gm_put (IP p) p aff"
  have upd: "set ?aff \<subseteq> insert (IP p, p) (set aff)" by (induction aff) auto
  then have "\<forall>(k, pod) \<in> set ?aff. IP pod = k" using Cons.prems(2) by auto
  with Cons.IH [of ?aff] Cons.prems(1) upd show ?case by auto
qed auto

lemma add_affected_keys: "fst ` set (add_affected ps aff) = IP ` set ps \<union> fst ` set aff"
  by (induction ps arbitrary: aff) (auto simp: dom_update)

lemma affected_ips:
  assumes "\<forall>(k, pod) \<in> set aff. IP pod = k"
  shows "IP ` snd ` set (add_affected ps aff) = IP ` set ps \<union> IP ` snd ` set aff"
proof -
  have "IP ` snd ` set m = fst ` set m" if "\<forall>(k, pod) \<in> set m. IP pod = k" for m :: "(string, PodInfo) gomap"
    using that by force
  moreover have "\<forall>(k, pod) \<in> set (add_affected ps aff). IP pod = k"
    using add_affected_elems [OF _ assms] by blast
  ultimately show ?thesis using assms add_affected_keys [of ps aff] by simp
qed

lemma matching_ips:
  "cache_inv bc \<Longrightarrow> IP ` set (PodIndex_GetPodsMatchingSelector (podIndex bc) sel) =
     IP ` {pod \<in> set (PodIndex_GetAll (podIndex bc)). LabelsContainAll (Labels pod) sel}"
  by (simp add: set_Matching cache_inv_def)

lemma pod_view_unlocked:
  "\<not> pod_locked qc \<Longrightarrow> podIndex bc' = podIndex bc \<Longrightarrow> pod_view bc' pc' qc \<longleftrightarrow> pod_view bc pc qc"
  by (cases qc) (simp_all add: pod_locked_def)

text \<open>A step of the policy worker that only reads: it must not lose an IP whose entry is to be written.\<close>

lemma inv_policy_reads:
  assumes w: "workers_inv (at bc pc qc)" and free: "\<not> pod_locked qc" and view: "policy_view bc qc pc'"
    and pending: "policy_pending (podIndex bc) pc \<subseteq> insert [] (policy_pending (podIndex bc) pc')"
  shows "workers_inv (at bc pc' qc)"
proof (rule workers_invI)
  show "pod_view bc pc' qc" using workers_invD(5) [OF w] pod_view_unlocked [OF free refl] by blast
  fix ip
  assume ip: "ip \<notin> policy_pending (podIndex bc) pc'" "ip \<notin> pod_pending (podIndex bc) qc"
  show "settled bc ip"
  proof (cases "ip = []")
    case True
    then show ?thesis using settled_empty [OF workers_invD(1) [OF w]] by simp
  next
    case False
    with ip pending show ?thesis by (intro workers_invD(6) [OF w]) auto
  qed
qed (use workers_invD(1,2) [OF w] free view in simp_all)

lemma inv_policy_writes:
  assumes w: "workers_inv (at bc (PolicyComputing pod pols ps) qc)" and free: "\<not> pod_locked qc"
  shows "workers_inv (at (put_entry pod pols bc) (PolicyLoop ps) qc)"
proof (rule workers_invI)
  note inv = workers_invD(1,2,4) [OF w]
  then have pod: "IP pod \<noteq> []" "entry_from pod pols = entry_for (policyIndex bc) pod" "up_to_date (podIndex bc) qc pod"
    by simp_all
  show "cache_inv (put_entry pod pols bc)" using inv(1) pod(1) by (rule cache_inv_put_entry)
  show "pod_view (put_entry pod pols bc) (PolicyLoop ps) qc"
    using workers_invD(5) [OF w] pod_view_unlocked [OF free put_entry_indexes(1)] by blast
  fix ip
  assume ip: "ip \<notin> policy_pending (podIndex (put_entry pod pols bc)) (PolicyLoop ps)"
    "ip \<notin> pod_pending (podIndex (put_entry pod pols bc)) qc"
  show "settled (put_entry pod pols bc) ip"
  proof (cases "ip = IP pod")
    case True
    with pod ip(2) show ?thesis by (simp add: settled_put_entry up_to_date_def)
  next
    case False
    then have "settled bc ip" using ip by (intro workers_invD(6) [OF w]) simp_all
    then show ?thesis using False by (simp add: settled_put_other)
  qed
qed (use workers_invD(2,4) [OF w] free in \<open>simp_all\<close>)

lemma inv_policy_snapshot:
  assumes w: "workers_inv (at bc pc qc)" and free: "\<not> pod_locked qc"
    and aff: "\<forall>(k, pod) \<in> set aff. IP pod = k \<and> up_to_date (podIndex bc) qc pod"
  shows "\<forall>(k, pod) \<in> set (add_affected (PodIndex_GetPodsMatchingSelector (podIndex bc) sel) aff).
      IP pod = k \<and> up_to_date (podIndex bc) qc pod"
    and "IP ` snd ` set (add_affected (PodIndex_GetPodsMatchingSelector (podIndex bc) sel) aff) =
      IP ` (snd ` set aff \<union> {pod \<in> set (PodIndex_GetAll (podIndex bc)). LabelsContainAll (Labels pod) sel})"
proof -
  note inv = workers_invD(1,2) [OF w]
  have keys: "\<forall>(k, pod) \<in> set aff. IP pod = k" using aff by auto
  show "\<forall>(k, pod) \<in> set (add_affected (PodIndex_GetPodsMatchingSelector (podIndex bc) sel) aff).
      IP pod = k \<and> up_to_date (podIndex bc) qc pod"
    using add_affected_elems [OF _ keys] matching_up_to_date [OF inv] aff by fastforce
  show "IP ` snd ` set (add_affected (PodIndex_GetPodsMatchingSelector (podIndex bc) sel) aff) =
      IP ` (snd ` set aff \<union> {pod \<in> set (PodIndex_GetAll (podIndex bc)). LabelsContainAll (Labels pod) sel})"
    by (simp add: affected_ips [OF keys] matching_ips [OF inv(1)] image_Un Un_commute)
qed

lemma snapshot_if:
  "(if nm_len sel > 0 then add_affected (PodIndex_GetPodsMatchingSelector pi sel) aff else aff) =
     add_affected (PodIndex_GetPodsMatchingSelector pi sel) aff"
  by simp

lemma inv_policy_step:
  assumes w: "workers_inv (at bc pc qc)" and waits: "\<not> (policy_waits pc \<and> pod_locked qc)"
  shows "workers_inv (at (fst (policy_step bc pc)) (snd (policy_step bc pc)) qc)"
proof (cases "pc = PolicyIdle")
  case False
  then have free: "\<not> pod_locked qc"
    using waits workers_invD(3) [OF w] by (cases pc) (auto simp: policy_waits_def policy_locked_def)
  note inv = workers_invD(1,2) [OF w] and reads = inv_policy_reads [OF w free]
  show ?thesis
  proof (cases "(bc, pc)" rule: policy_step.cases)
    case (2 b sel)
    then have pc: "pc = PolicyWaiting (ForPolicy sel)" by simp
    have "policy_view bc qc (PolicyLoop (PodIndex_GetPodsMatchingSelector (podIndex bc) sel))"
      using matching_up_to_date [OF inv] by simp
    then show ?thesis
      using reads [of PolicyIdle] reads [of "PolicyLoop (PodIndex_GetPodsMatchingSelector (podIndex bc) sel)"]
        matching_ips [OF inv(1), of sel] by (simp add: pc subset_insertI)
  next
    case (3 b old new)
    then have pc: "pc = PolicyWaiting (ForChange old new)" by simp
    note snap = inv_policy_snapshot [OF w free, of "[]" old, simplified]
    let ?pc = "PolicySecond new (add_affected (PodIndex_GetPodsMatchingSelector (podIndex bc) old) [])"
    have "policy_view bc qc ?pc" using snap(1) by simp
    moreover have "policy_pending (podIndex bc) pc \<subseteq> insert [] (policy_pending (podIndex bc) ?pc)"
      unfolding pc policy_pending.simps image_Un snap(2) by auto
    ultimately show ?thesis
      using reads [of ?pc] by (simp only: pc policy_step.simps snapshot_if fst_conv snd_conv)
  next
    case (4 b new aff)
    then have pc: "pc = PolicySecond new aff" by simp
    then have "\<forall>(k, pod) \<in> set aff. IP pod = k \<and> up_to_date (podIndex bc) qc pod"
      using workers_invD(4) [OF w] by simp
    note snap = inv_policy_snapshot [OF w free this, of new]
    let ?aff = "add_affected (PodIndex_GetPodsMatchingSelector (podIndex bc) new) aff"
    have "policy_view bc qc (PolicyLoop (map snd ?aff))" using snap(1) by force
    moreover have "policy_pending (podIndex bc) pc \<subseteq> insert [] (policy_pending (podIndex bc) (PolicyLoop (map snd ?aff)))"
      unfolding pc policy_pending.simps set_map snap(2) by blast
    ultimately show ?thesis
      using reads [of "PolicyLoop (map snd ?aff)"] by (simp only: pc policy_step.simps snapshot_if fst_conv snd_conv)
  next
    case (6 b pod rest)
    then have pc: "pc = PolicyLoop (pod # rest)" by simp
    with workers_invD(4) [OF w] show ?thesis
      using reads [of "PolicyLoop rest"] reads [of "PolicyComputing pod (PolicyIndex_GetAll (policyIndex bc)) rest"]
      by (auto simp: entry_from_all)
  next
    case (7 b pod ps rest)
    then show ?thesis using inv_policy_writes [of bc pod ps rest qc] w free by simp
  next
    case (5 b)
    then show ?thesis using reads [of PolicyIdle] by simp
  qed (use False in simp)
qed (use w in simp)

text \<open>The pod worker.\<close>

lemma policy_pending_upsert:
  assumes inv: "podindex_inv pi" and keeps: "keeps_ip pi req (KeepPod info)"
  shows "policy_pending pi pc \<subseteq> insert (IP info) (policy_pending (PodIndex_Upsert pi req info) pc)"
proof -
  let ?pi = "PodIndex_Upsert pi req info"
  have "pod \<in> set (PodIndex_GetAll ?pi)" if pod: "pod \<in> set (PodIndex_GetAll pi)" "IP pod \<noteq> IP info" for pod
  proof -
    obtain n where n: "gm_get (pods pi) n = Some pod" using pod(1) by (auto simp: set_PodIndex_GetAll [OF inv])
    then have "n \<noteq> req" using pod(2) keeps by (auto simp: keeps_ip_def)
    then have "gm_get (pods ?pi) n = Some pod" using n by (simp add: gomap_simps)
    then show ?thesis by (auto simp: set_PodIndex_GetAll [OF podindex_inv_Upsert [OF inv]])
  qed
  then have sub: "IP ` {pod \<in> set (PodIndex_GetAll pi). P (Labels pod)} \<subseteq>
      insert (IP info) (IP ` {pod \<in> set (PodIndex_GetAll ?pi). P (Labels pod)})" for P by blast
  show ?thesis
  proof (cases pc)
    case (PolicyWaiting job)
    then show ?thesis using sub [of "job_selects job"] by simp
  next
    case (PolicySecond new aff)
    then show ?thesis
      using sub [of "\<lambda>labels. LabelsContainAll labels new"] unfolding PolicySecond policy_pending.simps image_Un by blast
  qed (simp_all add: subset_insertI)
qed

lemma GetByIP_upsert_kept:
  assumes inv: "podindex_inv pi" and keeps: "keeps_ip pi req (KeepPod info)"
  shows "PodIndex_GetByIP (PodIndex_Upsert pi req info) = (PodIndex_GetByIP pi)(IP info \<mapsto> copyPodInfo info)"
proof (cases "gm_get (pods pi) req")
  case None
  then show ?thesis using inv by (simp add: GetByIP_Upsert PodIndex_Get_eq)
next
  case (Some old)
  then have "IP old = IP info" using keeps by (simp add: keeps_ip_def)
  with Some inv show ?thesis by (simp add: GetByIP_Upsert PodIndex_Get_eq)
qed

lemma inv_pod_upsert:
  assumes w: "workers_inv (at bc pc (PodWriting req (KeepPod info)))"
  shows "workers_inv (at (bc\<lparr>podIndex := PodIndex_Upsert (podIndex bc) req info\<rparr>) pc (PodWaiting req))"
proof -
  let ?pi = "podIndex bc" and ?pi' = "PodIndex_Upsert (podIndex bc) req info"
  note inv = workers_invD(1,2) [OF w]
  have pinv: "podindex_inv ?pi" using inv(1) by (simp add: cache_inv_def)
  have keeps: "keeps_ip ?pi req (KeepPod info)" using workers_invD(5) [OF w] by simp
  have pending: "pod_pending ?pi' (PodWaiting req) = {IP info}" by (simp add: gomap_simps)
  note lookup = GetByIP_upsert_kept [OF pinv keeps]
  have current: "up_to_date ?pi' (PodWaiting req) pod" if "up_to_date ?pi (PodWriting req (KeepPod info)) pod" for pod
    using that by (auto simp: up_to_date_def lookup pending simp del: pod_pending.simps(1))
  show ?thesis
  proof (rule workers_invI)
    show "cache_inv (bc\<lparr>podIndex := ?pi'\<rparr>)" using inv(1) podindex_inv_Upsert [OF pinv] by (simp add: cache_inv_def)
    show "rev_complete (podIndex (bc\<lparr>podIndex := ?pi'\<rparr>))"
      using inv(2) keeps by (simp add: rev_complete_Upsert keeps_ip_def)
    show "\<not> (policy_locked pc \<and> pod_locked (PodWaiting req))" by (simp add: pod_locked_def)
    show "policy_view (bc\<lparr>podIndex := ?pi'\<rparr>) (PodWaiting req) pc"
      using workers_invD(4) [OF w] current by (cases pc) auto
    show "pod_view (bc\<lparr>podIndex := ?pi'\<rparr>) pc (PodWaiting req)" using keeps by (simp add: keeps_ip_def gomap_simps)
    fix ip
    assume ip: "ip \<notin> policy_pending (podIndex (bc\<lparr>podIndex := ?pi'\<rparr>)) pc"
      "ip \<notin> pod_pending (podIndex (bc\<lparr>podIndex := ?pi'\<rparr>)) (PodWaiting req)"
    then have other: "ip \<noteq> IP info" using pending by simp
    with ip(1) policy_pending_upsert [OF pinv keeps, of pc] have "settled bc ip"
      by (intro workers_invD(6) [OF w]) auto
    then show "settled (bc\<lparr>podIndex := ?pi'\<rparr>) ip" using other by (simp add: settled_def expected_def lookup)
  qed
qed

lemma inv_pod_writes:
  assumes w: "workers_inv (at bc pc (PodComputing pod pols))"
  shows "workers_inv (at (put_entry pod pols bc) pc PodIdle)"
proof (rule workers_invI)
  note inv = workers_invD(1,2,5) [OF w]
  then have pod: "IP pod \<noteq> []" "PodIndex_GetByIP (podIndex bc) (IP pod) = Some pod"
    "entry_from pod pols = entry_for (policyIndex bc) pod \<or> IP pod \<in> policy_pending (podIndex bc) pc"
    by simp_all
  show "cache_inv (put_entry pod pols bc)" using inv(1) pod(1) by (rule cache_inv_put_entry)
  have "\<not> policy_locked pc" using workers_invD(3) [OF w] by (simp add: pod_locked_def)
  then show "policy_view (put_entry pod pols bc) PodIdle pc" by (cases pc) (simp_all add: policy_locked_def)
  fix ip
  assume ip: "ip \<notin> policy_pending (podIndex (put_entry pod pols bc)) pc"
  show "settled (put_entry pod pols bc) ip"
  proof (cases "ip = IP pod")
    case True
    with pod ip show ?thesis by (simp add: settled_put_entry)
  next
    case False
    then have "settled bc ip" using ip by (intro workers_invD(6) [OF w]) simp_all
    then show ?thesis using False by (simp add: settled_put_other)
  qed
qed (use workers_invD(2) [OF w] in \<open>simp_all add: pod_locked_def\<close>)

text \<open>A step of the pod worker that only reads and keeps the IP whose entry is to be written.\<close>

lemma inv_pod_reads:
  assumes w: "workers_inv (at bc pc qc)" and lock: "\<not> (policy_locked pc \<and> pod_locked qc')"
    and view: "pod_view bc pc qc'" and pending: "pod_pending (podIndex bc) qc' = pod_pending (podIndex bc) qc"
  shows "workers_inv (at bc pc qc')"
proof (rule workers_invI)
  have "up_to_date (podIndex bc) qc' = up_to_date (podIndex bc) qc"
    by (simp add: fun_eq_iff up_to_date_def pending)
  then show "policy_view bc qc' pc" using workers_invD(4) [OF w] by (cases pc) simp_all
  fix ip
  assume "ip \<notin> policy_pending (podIndex bc) pc" "ip \<notin> pod_pending (podIndex bc) qc'"
  then show "settled bc ip" by (intro workers_invD(6) [OF w]) (simp_all add: pending)
qed (use workers_invD(1,2) [OF w] lock view in simp_all)

lemma inv_pod_step:
  assumes w: "workers_inv (at bc pc qc)" and waits: "\<not> (pod_waits qc \<and> policy_locked pc)"
  shows "workers_inv (at (fst (pod_step bc qc)) pc (snd (pod_step bc qc)))"
proof -
  note inv = workers_invD(1,2) [OF w] and view = workers_invD(5) [OF w] and reads = inv_pod_reads [OF w]
  have pinv: "podindex_inv (podIndex bc)" using inv(1) by (simp add: cache_inv_def)
  note get = PodIndex_Get_eq [OF pinv]
  show ?thesis
  proof (cases qc)
    case (PodReading req wr)
    then have keeps: "keeps_ip (podIndex bc) req wr" using view by simp
    have "pod_step bc qc = (bc, PodWriting req wr)"
    proof (cases "gm_get (pods (podIndex bc)) req")
      case None
      then show ?thesis by (simp add: PodReading get)
    next
      case (Some old)
      then obtain info where "wr = KeepPod info" "IP old = IP info"
        using keeps by (cases wr) (simp_all add: keeps_ip_def)
      with Some show ?thesis by (simp add: PodReading get)
    qed
    then show ?thesis using reads [of "PodWriting req wr"] keeps by (simp add: PodReading pod_locked_def)
  next
    case (PodWriting req wr)
    show ?thesis
    proof (cases wr)
      case DropPod
      then have "PodIndex_Delete (podIndex bc) req = podIndex bc"
        using view by (simp add: PodWriting keeps_ip_def PodIndex_Delete_def)
      then show ?thesis using reads [of PodIdle] by (simp add: PodWriting DropPod pod_locked_def)
    next
      case (KeepPod info)
      then show ?thesis using inv_pod_upsert [of bc pc req info] w by (simp add: PodWriting)
    qed
  next
    case (PodWaiting req)
    then obtain pod where pod: "gm_get (pods (podIndex bc)) req = Some pod" "IP pod \<noteq> []" using view by auto
    then have "pod \<in> set (PodIndex_GetAll (podIndex bc))" by (auto simp: set_PodIndex_GetAll [OF pinv])
    then have "PodIndex_GetByIP (podIndex bc) (IP pod) = Some pod" using inv(2) pinv by (simp add: GetByIP_pods)
    moreover have "\<not> policy_locked pc" using waits by (simp add: PodWaiting pod_waits_def)
    ultimately show ?thesis using pod reads [of "PodLoading pod"] by (simp add: PodWaiting get)
  next
    case (PodLoading pod)
    then show ?thesis
      using view reads [of "PodComputing pod (PolicyIndex_GetAll (policyIndex bc))"] workers_invD(3) [OF w]
      by (simp add: entry_from_all pod_locked_def)
  next
    case (PodComputing pod pols)
    then show ?thesis using inv_pod_writes [of bc pc pod pols] w by simp
  qed (use w view in simp_all)
qed

text \<open>Another visiting order of the maps.\<close>

lemma inv_other_order:
  assumes w: "workers_inv (at bc pc qc)" and same: "same_cache bc bc'"
  shows "workers_inv (at bc' pc qc)"
proof -
  note inv = workers_invD(1,2) [OF w]
  note eq = same_cache_get(1-4) [OF inv(1) same] and ci' = same_cache_get(5) [OF inv(1) same]
  have pinv: "podindex_inv (podIndex bc)" "podindex_inv (podIndex bc')" using inv(1) ci' by (simp_all add: cache_inv_def)
  then have all: "set (PodIndex_GetAll (podIndex bc')) = set (PodIndex_GetAll (podIndex bc))"
    by (auto simp: set_PodIndex_GetAll eq)
  have "set (PolicyIndex_GetAll (policyIndex bc')) = set (PolicyIndex_GetAll (policyIndex bc))"
    using inv(1) ci' by (auto simp: set_PolicyIndex_GetAll eq cache_inv_def)
  then have entry: "entry_for (policyIndex bc') = entry_for (policyIndex bc)"
    by (simp add: fun_eq_iff entry_for_def)
  have lookup: "PodIndex_GetByIP (podIndex bc') = PodIndex_GetByIP (podIndex bc)"
    by (auto simp: fun_eq_iff PodIndex_GetByIP_def eq split: option.split)
  have pending: "policy_pending (podIndex bc') pc = policy_pending (podIndex bc) pc"
    "pod_pending (podIndex bc') qc = pod_pending (podIndex bc) qc"
    by (cases pc; simp add: all) (cases qc; simp add: eq)
  have current: "up_to_date (podIndex bc') qc = up_to_date (podIndex bc) qc"
    by (simp add: fun_eq_iff up_to_date_def lookup pending)
  have keeps: "keeps_ip (podIndex bc') = keeps_ip (podIndex bc)"
    by (simp add: fun_eq_iff keeps_ip_def ip_free_def eq split: pod_write.split)
  show ?thesis
  proof (rule workers_invI)
    show "rev_complete (podIndex bc')" using inv(2) by (simp add: rev_complete_def eq)
    show "policy_view bc' qc pc" using workers_invD(4) [OF w] by (cases pc) (simp_all add: current entry)
    show "pod_view bc' pc qc"
      using workers_invD(5) [OF w] by (cases qc) (simp_all add: keeps eq lookup entry pending)
    fix ip
    assume "ip \<notin> policy_pending (podIndex bc') pc" "ip \<notin> pod_pending (podIndex bc') qc"
    then have "settled bc ip" by (intro workers_invD(6) [OF w]) (simp_all add: pending)
    then show "settled bc' ip" by (simp add: settled_def expected_def eq lookup entry)
  qed (use ci' workers_invD(3) [OF w] in simp_all)
qed

lemma workers_inv_step:
  assumes "work keeps_ip w w'" and "workers_inv w"
  shows "workers_inv w'"
proof -
  obtain bc pc qc where w: "w = at bc pc qc" by (cases w) simp
  from assms(1) show ?thesis
  proof cases
    case (policy_begins env req idx job)
    then show ?thesis using assms(2) inv_policy_begins [of bc qc env req idx job] by (simp add: w)
  next
    case (policy_steps bc' pc')
    then show ?thesis using assms(2) inv_policy_step [of bc pc qc] by (simp add: w)
  next
    case (pod_begins env req wr)
    then show ?thesis
      using assms(2) inv_pod_reads [of bc pc PodIdle "PodReading req wr"] by (simp add: w pod_locked_def)
  next
    case (pod_steps bc' qc')
    then show ?thesis using assms(2) inv_pod_step [of bc pc qc] by (simp add: w)
  next
    case (other_order bc')
    then show ?thesis using assms(2) inv_other_order [of bc pc qc bc'] by (simp add: w)
  next
    case (other_visits ps ps')
    then have "set ps' = set ps" by (metis set_mset_mset)
    moreover have "\<not> pod_locked qc"
      using other_visits assms(2) by (simp add: w workers_inv_def policy_locked_def)
    ultimately show ?thesis
      using other_visits assms(2) inv_policy_reads [of bc pc qc "PolicyLoop ps'"] workers_invD(4) [of bc pc qc]
      by (simp add: w subset_insertI)
  qed
qed

lemma workers_inv_reached:
  "(work keeps_ip)\<^sup>*\<^sup>* w w' \<Longrightarrow> workers_inv w \<Longrightarrow> workers_inv w'"
  by (induction rule: rtranclp_induct) (auto intro: workers_inv_step)

lemma workers_inv_idle:
  assumes "cache_inv bc" and "coherent bc" and "rev_complete (podIndex bc)"
  shows "workers_inv (idle_workers bc)"
  using assms by (simp add: workers_inv_def idle_workers_def settled_def coherent_def policy_locked_def)

section \<open>Progress\<close>

text \<open>A worker that the other one does not block runs as if it were alone.\<close>

lemma policy_alone_work:
  "policy_next\<^sup>*\<^sup>* (bc, pc) (bc', pc') \<Longrightarrow> \<not> pod_locked qc \<Longrightarrow> (work allowed)\<^sup>*\<^sup>* (at bc pc qc) (at bc' pc' qc)"
proof (induction rule: rtranclp_induct2)
  case (step b p b' p')
  have "work allowed (at b p qc) ((at b p qc)\<lparr>cache := b', policyPc := p'\<rparr>)"
    using step by (intro policy_steps) (simp_all add: policy_next_def)
  with step show ?case by simp
qed simp

lemma pod_alone_work:
  "pod_next\<^sup>*\<^sup>* (bc, qc) (bc', qc') \<Longrightarrow> \<not> policy_locked pc \<Longrightarrow> (work allowed)\<^sup>*\<^sup>* (at bc pc qc) (at bc' pc qc')"
proof (induction rule: rtranclp_induct2)
  case (step b q b' q')
  have "work allowed (at b pc q) ((at b pc q)\<lparr>cache := b', podPc := q'\<rparr>)"
    using step by (intro pod_steps) (simp_all add: pod_next_def)
  with step show ?case by simp
qed simp

lemma policy_finishes: "\<exists>bc'. policy_next\<^sup>*\<^sup>* (bc, pc) (bc', PolicyIdle)"
proof (cases pc)
  case (PolicyWaiting job)
  then show ?thesis using job_alone by blast
next
  case (PolicySecond new aff)
  then show ?thesis using policy_next_trans [of bc pc] policy_loop_alone by (metis policy_step.simps(4))
next
  case (PolicyLoop ps)
  then show ?thesis using policy_loop_alone by blast
next
  case (PolicyComputing pod pols ps)
  then show ?thesis using policy_next_trans [of bc pc] policy_loop_alone by (metis policy_step.simps(7))
qed auto

lemma pod_finishes: "\<exists>bc'. pod_next\<^sup>*\<^sup>* (bc, qc) (bc', PodIdle)"
proof -
  have stop: "\<exists>bc'. pod_next\<^sup>*\<^sup>* (bc, pc) (bc', PodIdle)" if "snd (pod_step bc pc) = PodIdle" for bc pc
    using that pod_next_trans [of bc pc] by (metis prod.collapse rtranclp.rtrancl_refl)
  have go: "\<exists>bc'. pod_next\<^sup>*\<^sup>* (bc, pc) (bc', PodIdle)"
    if "\<And>b. \<exists>bc'. pod_next\<^sup>*\<^sup>* (b, snd (pod_step bc pc)) (bc', PodIdle)" for bc pc
    using that [of "fst (pod_step bc pc)"] pod_next_trans [of bc pc] by auto
  have computing: "\<exists>bc'. pod_next\<^sup>*\<^sup>* (b, PodComputing pod pols) (bc', PodIdle)" for b pod pols by (rule stop) simp
  have loading: "\<exists>bc'. pod_next\<^sup>*\<^sup>* (b, PodLoading pod) (bc', PodIdle)" for b pod by (rule go) (simp add: computing)
  have waiting: "\<exists>bc'. pod_next\<^sup>*\<^sup>* (b, PodWaiting req) (bc', PodIdle)" for b req
    by (rule go) (auto simp: loading split: option.split)
  have writing: "\<exists>bc'. pod_next\<^sup>*\<^sup>* (b, PodWriting req wr) (bc', PodIdle)" for b req wr
    by (rule go) (cases wr; auto simp: waiting)
  have removing: "\<exists>bc'. pod_next\<^sup>*\<^sup>* (b, PodRemoving req wr ip) (bc', PodIdle)" for b req wr ip
    by (rule go) (simp add: writing)
  have reading: "\<exists>bc'. pod_next\<^sup>*\<^sup>* (b, PodReading req wr) (bc', PodIdle)" for b req wr
    by (rule go) (auto simp: writing removing split: option.split pod_write.split)
  show ?thesis
    by (cases qc) (auto simp: computing loading waiting writing removing reading)
qed

lemma policy_step_locks: "policy_locked (snd (policy_step bc pc)) \<Longrightarrow> policy_locked pc \<or> policy_waits pc"
  by (cases "(bc, pc)" rule: policy_step.cases) (simp_all add: policy_locked_def policy_waits_def)

lemma pod_step_locks: "pod_locked (snd (pod_step bc pc)) \<Longrightarrow> pod_locked pc \<or> pod_waits pc"
  by (cases "(bc, pc)" rule: pod_step.cases)
    (auto simp: pod_locked_def pod_waits_def split: option.splits pod_write.splits if_splits)

lemma exclusive_step:
  assumes "work allowed w w'" and "\<not> (policy_locked (policyPc w) \<and> pod_locked (podPc w))"
  shows "\<not> (policy_locked (policyPc w') \<and> pod_locked (podPc w'))"
  using assms
proof cases
  case (policy_steps bc pc)
  then show ?thesis using assms(2) policy_step_locks [of "cache w" "policyPc w"] by auto
next
  case (pod_steps bc pc)
  then show ?thesis using assms(2) pod_step_locks [of "cache w" "podPc w"] by auto
qed (use assms(2) in \<open>simp_all add: policy_locked_def pod_locked_def job_pc_def split: option.split\<close>)

lemma exclusive_reached:
  assumes "(work allowed)\<^sup>*\<^sup>* (idle_workers bc) w"
  shows "\<not> (policy_locked (policyPc w) \<and> pod_locked (podPc w))"
  using assms
proof (induction rule: rtranclp_induct)
  case base
  show ?case by (simp add: idle_workers_def policy_locked_def)
next
  case (step w w')
  then show ?case by (blast dest: exclusive_step)
qed

text \<open>A whole reconcile of a policy between two steps of the pod worker.\<close>

lemma policy_run:
  assumes "env_ok env" and "deletion_agrees env bc req" and "\<not> pod_locked qc"
  shows "(work allowed)\<^sup>*\<^sup>* (at bc PolicyIdle qc) (at (reconciled env bc req) PolicyIdle qc)"
proof -
  obtain idx job where first: "policy_first env (policyIndex bc) req = (idx, job)" by fastforce
  have "work allowed (at bc PolicyIdle qc) (at (bc\<lparr>policyIndex := idx\<rparr>) (job_pc job) qc)"
    using policy_begins [of "at bc PolicyIdle qc" env req idx job] assms first by simp
  then show ?thesis
    using policy_alone_work [OF policy_alone [OF first] assms(3)] by (rule converse_rtranclp_into_rtranclp)
qed

lemma pod_moves:
  assumes "pod_step bc qc = (bc', qc')" and "\<not> policy_locked pc"
  shows "work allowed (at bc pc qc) (at bc' pc qc')"
  using pod_steps [of "at bc pc qc" bc' qc'] assms by simp

lemma deletion_overtaken:
  assumes pod: "PodIndex_Get (podIndex bc) n = Some pod" and drop: "pod_first penv n = Some DropPod"
    and env: "env_ok env" "deletion_agrees env bc req"
  defines "bc' \<equiv> reconciled env (RemovePod bc (IP pod)) req"
  shows "(work (\<lambda>_ _ _. True))\<^sup>*\<^sup>* (idle_workers bc) (idle_workers (bc'\<lparr>podIndex := PodIndex_Delete (podIndex bc') n\<rparr>))"
proof -
  let ?W = "work (\<lambda>_ _ _. True)" and ?rem = "RemovePod bc (IP pod)"
  have "?W (idle_workers bc) (at bc PolicyIdle (PodReading n DropPod))"
    using pod_begins [of "idle_workers bc" penv n DropPod] drop by (simp add: idle_workers_def)
  moreover have "?W (at bc PolicyIdle (PodReading n DropPod)) (at bc PolicyIdle (PodRemoving n DropPod (IP pod)))"
    by (rule pod_moves) (simp_all add: pod policy_locked_def)
  moreover have "?W (at bc PolicyIdle (PodRemoving n DropPod (IP pod))) (at ?rem PolicyIdle (PodWriting n DropPod))"
    by (rule pod_moves) (simp_all add: policy_locked_def)
  moreover have "?W\<^sup>*\<^sup>* (at ?rem PolicyIdle (PodWriting n DropPod)) (at bc' PolicyIdle (PodWriting n DropPod))"
    unfolding bc'_def by (rule policy_run) (use env in \<open>simp_all add: deletion_agrees_def pod_locked_def\<close>)
  moreover have "?W (at bc' PolicyIdle (PodWriting n DropPod))
      (idle_workers (bc'\<lparr>podIndex := PodIndex_Delete (podIndex bc') n\<rparr>))"
    unfolding idle_workers_def by (rule pod_moves) (simp_all add: policy_locked_def)
  ultimately show ?thesis by (meson converse_rtranclp_into_rtranclp rtranclp.rtrancl_into_rtrancl)
qed

text \<open>A cluster without pods, for the examples.\<close>

definition gone_env :: PodEnv where
  "gone_env = \<lparr>getPod = (\<lambda>_. Inl (NotFound []))\<rparr>"

lemma gone_env_first: "pod_first gone_env n = Some DropPod"
  by (simp add: pod_first_def gone_env_def)

section \<open>Properties\<close>





text \<open>
  C23: when an indexed pod is deleted, an interleaving can leave a wrong entry for good. The pod reconciler removes the entry of a
  deleted pod from the cache before it removes the pod from the index. A policy that is reconciled
  between the two, and that selects the pod, puts the entry back. Then both workers are idle, no
  indexed pod has the IP, and the entry is served.
\<close>

theorem interleaved_deletion_leaves_stale_entry:
  assumes "cache_inv bc" and "rev_complete (podIndex bc)"
    and "PodIndex_Get (podIndex bc) n = Some pod" and "IP pod \<noteq> []" and "pod_first penv n = Some DropPod"
    and "env_ok env" and "deletion_agrees env bc req"
    and "policy_first env (policyIndex bc) req = (idx, Some (ForPolicy sel))"
    and "LabelsContainAll (Labels pod) sel" and "Domains (entry_for idx pod) \<noteq> []"
  shows "\<exists>w. (work (\<lambda>_ _ _. True))\<^sup>*\<^sup>* (idle_workers bc) w \<and> policyPc w = PolicyIdle \<and> podPc w = PodIdle \<and>
    PodIndex_GetByIP (podIndex (cache w)) (IP pod) = None \<and> entry_for idx pod \<in> set (GetBlocklist (cache w))"
proof -
  let ?rem = "(RemovePod bc (IP pod))\<lparr>policyIndex := idx\<rparr>"
  let ?bc = "reconciled env (RemovePod bc (IP pod)) req" let ?w = "?bc\<lparr>podIndex := PodIndex_Delete (podIndex bc) n\<rparr>"
  have pinv: "podindex_inv (podIndex bc)" using assms(1) by (simp add: cache_inv_def)
  have "?bc = RecalculateForPolicy ?rem sel"
    using policy_first_run [of env "RemovePod bc (IP pod)" req] assms(8) by simp
  then have bc: "?bc = recalc_pods (PodIndex_GetPodsMatchingSelector (podIndex bc) sel) ?rem"
    by (simp add: RecalculateForPolicy_eq)
  have pod: "pod \<in> set (PodIndex_GetAll (podIndex bc))"
    using assms(3) pinv by (auto simp: set_PodIndex_GetAll PodIndex_Get_eq)
  have unique: "q = pod" if "q \<in> set (PodIndex_GetAll (podIndex bc))" "IP q = IP pod" for q
    using that pod GetByIP_pods [OF pinv assms(2)] by (metis option.inject)
  have entry: "gm_get (entries ?bc) (IP pod) = Some (entry_for idx pod)"
    unfolding bc using pod unique assms(4,9)
    by (subst recalc_pods_hit) (auto simp: set_Matching [OF pinv])
  have "policyindex_inv idx" using policy_first_change [OF assms(1,6,7,8)] by blast
  then have "cache_inv ?rem" using cache_inv_RemovePod [OF assms(1)] by (simp add: cache_inv_def)
  then have "cache_inv ?bc" unfolding bc by (rule cache_inv_recalc_pods)
  then have "cache_inv ?w" using podindex_inv_Delete [OF pinv] by (simp add: cache_inv_def)
  then have "entry_for idx pod \<in> set (GetBlocklist ?w)" using entry assms(10) by (simp add: set_GetBlocklist)
  moreover have "PodIndex_GetByIP (podIndex ?w) (IP pod) = None"
    using assms(3) by (simp add: GetByIP_Delete [OF pinv])
  moreover have "podIndex ?bc = podIndex bc" by (simp add: bc)
  ultimately show ?thesis
    using deletion_overtaken [OF assms(3,5,6,7)] by (intro exI [of _ "idle_workers ?w"]) (simp add: idle_workers_def)
qed

theorem interleaved_deletion_leaves_stale_entry_witness:
  "\<exists>w. (work (\<lambda>_ _ _. True))\<^sup>*\<^sup>* (idle_workers sample_cache) w \<and> policyPc w = PolicyIdle \<and> podPc w = PodIdle \<and>
     PodIndex_GetByIP (podIndex (cache w)) ''10.0.0.5'' = None \<and>
     (\<exists>e \<in> set (GetBlocklist (cache w)). entryIP e = ''10.0.0.5'')"
proof -
  let ?env = "sample_env (Some sample_policy)" and ?k = "policyKey sample_policy"
  let ?sel = "TargetSelector (Spec sample_policy)" and ?idx = "snd (PolicyIndex_Upsert sample_policies sample_policy)"
  have env: "env_ok ?env" by (simp add: env_ok_def sample_env_def)
  have agrees: "deletion_agrees ?env sample_cache ?k"
    by (rule sample_deletion_agrees) (simp add: sample_policy_def)
  have upsert: "PolicyIndex_Upsert sample_policies sample_policy = (?sel, sample_policies)"
    by (simp add: sample_policies_eq PolicyIndex_Upsert_def policyKey_def deepcopy_policy_id Let_def)
      (simp add: sample_policy_def)
  have "selectorsEqual ?sel ?sel" by (simp add: selectorsEqual_def sample_policy_def)
  then have first: "policy_first ?env (policyIndex sample_cache) ?k = (sample_policies, Some (ForPolicy ?sel))"
    by (simp add: policy_first_def sample_env_def upsert) (simp add: sample_policy_def dnsPolicyFinalizer_def)
  have pod: "PodIndex_Get (podIndex sample_cache) web = Some pod_frontend" "IP pod_frontend = ''10.0.0.5''"
    by (simp add: sample_pods_eq PodIndex_Get_def) (simp add: pod_frontend_def)
  have sel: "LabelsContainAll (Labels pod_frontend) ?sel"
    by (simp add: LabelsContainAll_def pod_frontend_def sample_policy_def)
  have "''a.ads.com'' \<in> set (Domains (entry_for sample_policies pod_frontend))"
    by (simp add: entry_for_def sample_policies_eq PolicyIndex_GetAll_def deepcopy_policy_id blocked_def)
      (simp add: LabelsContainAll_def pod_frontend_def sample_policy_def)
  then have "Domains (entry_for sample_policies pod_frontend) \<noteq> []" by auto
  then have "\<exists>w. (work (\<lambda>_ _ _. True))\<^sup>*\<^sup>* (idle_workers sample_cache) w \<and> policyPc w = PolicyIdle \<and> podPc w = PodIdle \<and>
     PodIndex_GetByIP (podIndex (cache w)) (IP pod_frontend) = None \<and>
     entry_for sample_policies pod_frontend \<in> set (GetBlocklist (cache w))"
    by (intro interleaved_deletion_leaves_stale_entry [OF sample_cache_ok(1,3) pod(1) _ gone_env_first env agrees first sel])
      (simp_all add: pod(2))
  moreover have "entryIP (entry_for sample_policies pod_frontend) = IP pod_frontend" by simp
  ultimately show ?thesis unfolding pod(2) by blast
qed

end
