(* ===== verification/Convergence.thy ===== *)
theory Convergence
  imports Controller_System
begin

text \<open>
  The work queues run empty. \<open>drain\<close> is the part of the system's steps in which nobody edits an object
  and the API server answers: a worker takes a name out of its queue and reconciles it. A reconcile may
  put the name back, because it changed the object itself: to add or remove the finalizer, or to write
  the status. \<open>rank\<close> counts how often that can still happen to a policy, and the sum over the queue
  bounds the number of reconciles.

  The assumptions on the cluster (\<open>calm\<close>) are those of \<open>Controller_System\<close>, as conditions on the state
  in which the edits stop, and one more: no live policy has an empty selector. Such a policy is refused
  and retried for ever.
\<close>

section \<open>Steps\<close>

abbreviation live :: "DnsPolicy \<Rightarrow> bool" where
  "live p \<equiv> DeletionTimestamp (ObjMeta p) = None \<or> DeletionTimestamp (ObjMeta p) = Some 0"

text \<open>An API server that answers every read with the stored object, and one that accepts every update as well.\<close>

definition answers :: "(NamespacedName \<Rightarrow> go_error + 'a) \<Rightarrow> (NamespacedName \<rightharpoonup> 'a) \<Rightarrow> bool" where
  "answers get objs \<longleftrightarrow>
     (\<forall>m. case objs m of None \<Rightarrow> \<exists>e. get m = Inl (NotFound e) | Some x \<Rightarrow> get m = Inr x)"

definition healthy :: "PolicyEnv \<Rightarrow> (NamespacedName \<rightharpoonup> DnsPolicy) \<Rightarrow> bool" where
  "healthy env objs \<longleftrightarrow> env_laws env \<and> answers (getPolicy env) objs \<and>
     (\<forall>q. updatePolicy env q = None) \<and> (\<forall>q. updateStatus env q = None)"

inductive drain :: "System \<Rightarrow> System \<Rightarrow> bool" where
  drain_policy: "n \<in> dirtyPolicies s \<Longrightarrow> healthy env (clPolicies s) \<Longrightarrow> same_cache (ctrl s) bc \<Longrightarrow>
    drain s (policy_result env n (s\<lparr>ctrl := bc\<rparr>))"
| drain_pod: "n \<in> dirtyPods s \<Longrightarrow> answers (getPod env) (clPods s) \<Longrightarrow> same_cache (ctrl s) bc \<Longrightarrow>
    drain s (pod_result env n (s\<lparr>ctrl := bc\<rparr>))"

definition calm :: "System \<Rightarrow> bool" where
  "calm s \<longleftrightarrow>
     finite (dirtyPolicies s) \<and> finite (dirtyPods s) \<and>
     (\<forall>n p. clPolicies s n = Some p \<longrightarrow> live p \<longrightarrow> nm_list (TargetSelector (Spec p)) \<noteq> []) \<and>
     (\<forall>n p q. clPolicies s n = Some p \<longrightarrow> \<not> live p \<longrightarrow> idxPolicies s n = Some q \<longrightarrow>
        nm_get (TargetSelector (Spec q)) = nm_get (TargetSelector (Spec p))) \<and>
     (\<forall>n m p q. clPods s n = Some p \<longrightarrow> clPods s m = Some q \<longrightarrow> PodIP p = PodIP q \<longrightarrow> PodIP p \<noteq> [] \<longrightarrow> n = m) \<and>
     (\<forall>n m p i. clPods s n = Some p \<longrightarrow> idxPods s m = Some i \<longrightarrow> IP i = PodIP p \<longrightarrow> m = n)"

section \<open>What one reconcile does to its object\<close>

text \<open>The object after a reconcile by a healthy API server, and whether the reconcile changed it.\<close>

definition next_object :: "PolicyEnv \<Rightarrow> DnsPolicy \<Rightarrow> DnsPolicy option" where
  "next_object env p =
     (if \<not> live p
      then (if has_finalizer p
            then Some (set_finalizers p (removeFinalizer env (Finalizers (ObjMeta p)) dnsPolicyFinalizer)) else None)
      else if \<not> has_finalizer p
      then Some (set_finalizers p (addFinalizer env (Finalizers (ObjMeta p)) dnsPolicyFinalizer))
      else if ObservedGeneration (Status p) \<noteq> Generation (ObjMeta p)
      then Some (updateCondition env
        (p\<lparr>Status := (Status p)\<lparr>ObservedGeneration := Generation (ObjMeta p)\<rparr>\<rparr>)
        ''Ready'' ''True'' ''Reconciled'' ''DnsPolicy successfully reconciled'')
      else None)"

definition rank :: "DnsPolicy option \<Rightarrow> nat" where
  "rank x =
     (case x of
        None \<Rightarrow> 0
      | Some p \<Rightarrow>
          if live p
          then (if has_finalizer p then 0 else 1) + (if ObservedGeneration (Status p) = Generation (ObjMeta p) then 0 else 1)
          else (if has_finalizer p then 1 else 0))"

lemma rank_le: "rank x \<le> 2"
  by (auto simp: rank_def split: option.split)

lemma set_finalizers_generation [simp]:
  "Generation (ObjMeta (set_finalizers p fs)) = Generation (ObjMeta p)"
  by (simp add: set_finalizers_def)

lemma next_object_rank:
  assumes "finalizer_laws env" and "next_object env p = Some q"
  shows "rank (Some q) < rank (Some p)"
  using assms
  by (auto simp: next_object_def rank_def finalizer_laws_def split: if_splits)

lemma next_object_frame:
  assumes "next_object env p = Some q"
  shows "Spec q = Spec p" and "live q \<longleftrightarrow> live p"
  using assms by (auto simp: next_object_def split: if_splits)

lemma policyKey_next: "next_object env p = Some q \<Longrightarrow> policyKey q = policyKey p"
  by (auto simp: next_object_def policyKey_def set_finalizers_def split: if_splits)

text \<open>What a reconcile of an object that is stored and valid sends.\<close>

lemma answersD:
  assumes "answers get objs"
  shows "reads get objs" and "objs n = None \<Longrightarrow> \<exists>e. get n = Inl (NotFound e)" and "objs n = Some x \<Longrightarrow> get n = Inr x"
proof -
  from assms have "case objs n of None \<Rightarrow> \<exists>e. get n = Inl (NotFound e) | Some x \<Rightarrow> get n = Inr x" by (simp add: answers_def)
  then show "objs n = None \<Longrightarrow> \<exists>e. get n = Inl (NotFound e)" and "objs n = Some x \<Longrightarrow> get n = Inr x" by simp_all
qed (use assms in \<open>simp add: answers_def reads_def\<close>)

lemma healthyD:
  assumes "healthy env objs"
  shows "env_laws env" and "finalizer_laws env" and "answers (getPolicy env) objs"
    and "timeIsZero env (DeletionTimestamp (ObjMeta p)) \<longleftrightarrow> live p"
    and "updatePolicy env q = None" and "updateStatus env q = None"
  using assms by (simp_all add: healthy_def env_laws_def)

lemma healthy_reconcile:
  assumes h: "healthy env objs" and p: "objs n = Some p" and valid: "live p \<Longrightarrow> nm_list (TargetSelector (Spec p)) \<noteq> []"
  shows "fst (PolicyReconcile env bc n) = None"
    and "fold (apply_effect env) (reconcile_effects env bc n) s =
      (case next_object env p of None \<Rightarrow> s | Some q \<Rightarrow> store_policy env q s)"
proof -
  note laws = healthyD(4-6) [OF h] finalizer_lawsD [OF healthyD(2) [OF h]] answersD(3) [OF healthyD(3) [OF h] p]
  show "fst (PolicyReconcile env bc n) = None"
    using valid by (auto simp: PolicyReconcile_def laws reconcile_deleting_def reconcile_add_finalizer_def
        reconcile_index_def reconcile_status_def Let_def case_prod_unfold)
  show "fold (apply_effect env) (reconcile_effects env bc n) s =
      (case next_object env p of None \<Rightarrow> s | Some q \<Rightarrow> store_policy env q s)"
    using valid by (auto simp: PolicyReconcile_def laws reconcile_deleting_def reconcile_add_finalizer_def
        effects_index reconcile_status_def next_object_def Let_def)
qed

lemma healthy_not_found:
  assumes "healthy env objs" and "objs n = None"
  shows "fst (PolicyReconcile env bc n) = None" and "reconcile_effects env bc n = []"
  using answersD(2) [OF healthyD(3) [OF assms(1)] assms(2)]
  by (auto simp: PolicyReconcile_def reconcile_not_found_def Let_def case_prod_unfold)

text \<open>The whole system after a reconcile of a policy.\<close>

definition policy_object :: "PolicyEnv \<Rightarrow> DnsPolicy option \<Rightarrow> DnsPolicy option \<times> bool" where
  "policy_object env x =
     (case Option.bind x (next_object env) of
        None \<Rightarrow> (x, False)
      | Some q \<Rightarrow> (if \<not> live q \<and> Finalizers (ObjMeta q) = [] then None else Some q, True))"

lemma healthy_result:
  assumes h: "healthy env (clPolicies s)" and wf: "cluster_wf s"
    and valid: "\<And>p. clPolicies s n = Some p \<Longrightarrow> live p \<Longrightarrow> nm_list (TargetSelector (Spec p)) \<noteq> []"
  shows "clPolicies (policy_result env n s) = (clPolicies s)(n := fst (policy_object env (clPolicies s n)))"
    and "dirtyPolicies (policy_result env n s) =
      (if snd (policy_object env (clPolicies s n)) then insert n (dirtyPolicies s) else dirtyPolicies s - {n})"
    and "clPods (policy_result env n s) = clPods s" and "dirtyPods (policy_result env n s) = dirtyPods s"
    and "ctrl (policy_result env n s) = reconciled env (ctrl s) n"
proof -
  let ?s = "s\<lparr>ctrl := reconciled env (ctrl s) n, dirtyPolicies := dirtyPolicies s - {n}\<rparr>"
  have "policy_result env n s =
    (case Option.bind (clPolicies s n) (next_object env) of None \<Rightarrow> ?s | Some q \<Rightarrow> store_policy env q ?s)"
  proof (cases "clPolicies s n")
    case None
    with healthy_not_found [OF h None] show ?thesis by (simp add: policy_result_def case_prod_unfold)
  next
    case (Some p)
    with healthy_reconcile [OF h Some] valid show ?thesis
      by (simp add: policy_result_def case_prod_unfold)
  qed
  moreover have "policyKey q = n" if "Option.bind (clPolicies s n) (next_object env) = Some q" for q
    using that wf by (auto simp: cluster_wf_def policyKey_next split: bind_splits)
  ultimately show "clPolicies (policy_result env n s) = (clPolicies s)(n := fst (policy_object env (clPolicies s n)))"
    and "dirtyPolicies (policy_result env n s) =
      (if snd (policy_object env (clPolicies s n)) then insert n (dirtyPolicies s) else dirtyPolicies s - {n})"
    and "clPods (policy_result env n s) = clPods s" and "dirtyPods (policy_result env n s) = dirtyPods s"
    and "ctrl (policy_result env n s) = reconciled env (ctrl s) n"
    using healthyD(4) [OF h]
    by (auto simp: policy_object_def store_policy_def fun_eq_iff split: option.split)
qed

lemma policy_object_rank:
  assumes "finalizer_laws env" and "snd (policy_object env x)"
  shows "rank (fst (policy_object env x)) < rank x"
proof -
  obtain p q where pq: "x = Some p" "next_object env p = Some q"
    using assms(2) by (auto simp: policy_object_def split: option.splits bind_splits)
  then have "rank (Some q) < rank x" using next_object_rank [OF assms(1)] by simp
  moreover have "rank None \<le> rank (Some q)" by (simp add: rank_def)
  ultimately show ?thesis using pq by (simp add: policy_object_def)
qed

lemma policy_object_keeps:
  assumes "fst (policy_object env x) = Some q"
  obtains p where "x = Some p" "Spec q = Spec p" "live q \<longleftrightarrow> live p"
  using assms next_object_frame [of env _ q]
  by (cases x) (auto simp: policy_object_def split: option.splits if_splits)

lemma policy_object_live:
  assumes "live p"
  obtains q where "fst (policy_object env (Some p)) = Some q" "Spec q = Spec p" "live q"
  using assms next_object_frame [of env p]
  by (cases "next_object env p") (auto simp: policy_object_def)

section \<open>The queues shrink\<close>

text \<open>The number of reconciles that the two queues can still cause.\<close>

definition backlog :: "System \<Rightarrow> nat" where
  "backlog s = (\<Sum>n \<in> dirtyPolicies s. Suc (rank (clPolicies s n))) + card (dirtyPods s)"

lemma backlog_le: "backlog s \<le> 3 * card (dirtyPolicies s) + card (dirtyPods s)"
proof -
  have "Suc (rank x) \<le> 3" for x using rank_le [of x] by simp
  then have "(\<Sum>n \<in> dirtyPolicies s. Suc (rank (clPolicies s n))) \<le> of_nat (card (dirtyPolicies s)) * 3"
    by (intro sum_bounded_above) simp
  then show ?thesis by (simp add: backlog_def)
qed

lemma calm_reorder:
  assumes "sys_inv s" and "calm s" and "same_cache (ctrl s) bc"
  shows "calm (s\<lparr>ctrl := bc\<rparr>)"
  using assms(2) same_cache_get(1,3) [OF sys_inv_cache(1) [OF assms(1)] assms(3)] by (simp add: calm_def)

lemma calmD:
  assumes "calm s"
  shows "finite (dirtyPolicies s)" and "finite (dirtyPods s)"
    and "clPolicies s n = Some p \<Longrightarrow> live p \<Longrightarrow> nm_list (TargetSelector (Spec p)) \<noteq> []"
    and "clPolicies s n = Some p \<Longrightarrow> \<not> live p \<Longrightarrow> idxPolicies s n = Some q \<Longrightarrow>
      nm_get (TargetSelector (Spec q)) = nm_get (TargetSelector (Spec p))"
    and "clPods s n = Some pod \<Longrightarrow> clPods s m = Some pod' \<Longrightarrow> PodIP pod = PodIP pod' \<Longrightarrow> PodIP pod \<noteq> [] \<Longrightarrow> n = m"
    and "clPods s n = Some pod \<Longrightarrow> idxPods s m = Some i \<Longrightarrow> IP i = PodIP pod \<Longrightarrow> m = n"
  using assms unfolding calm_def by blast+

lemma calm_agrees:
  assumes "calm s" and "healthy env (clPolicies s)"
  shows "deletion_agrees env (ctrl s) n"
  unfolding deletion_agrees_def
proof (intro allI impI)
  fix p q
  assume "getPolicy env n = Inr p" "\<not> timeIsZero env (DeletionTimestamp (ObjMeta p))" "idxPolicies s n = Some q"
  with readsD(2) [OF answersD(1) [OF healthyD(3) [OF assms(2)]]] healthyD(4) [OF assms(2)]
  show "nm_get (TargetSelector (Spec q)) = nm_get (TargetSelector (Spec p))"
    by (intro calmD(4) [OF assms(1)]) simp_all
qed

lemma calm_policy:
  assumes inv: "sys_inv s" and calm: "calm s" and h: "healthy env (clPolicies s)"
  shows "calm (policy_result env n s)"
proof -
  have wf: "cluster_wf s" using inv by (simp add: sys_inv_def)
  note res = healthy_result [OF h wf calmD(3) [OF calm]]
  have ok: "env_ok env" using wf answersD(1) [OF healthyD(3) [OF h]] by (rule env_ok_reads)
  have kept: "\<exists>p. clPolicies s m = Some p \<and> Spec p' = Spec p \<and> (live p' \<longleftrightarrow> live p)"
    if "clPolicies (policy_result env n s) m = Some p'" for m p'
    using that policy_object_keeps [of env "clPolicies s n" p'] by (cases "m = n") (auto simp: res)
  have "nm_get (TargetSelector (Spec q)) = nm_get (TargetSelector (Spec p'))"
    if p': "clPolicies (policy_result env n s) m = Some p'" "\<not> live p'"
      and q: "gm_get (policies (policyIndex (reconciled env (ctrl s) n))) m = Some q" for m p' q
  proof (cases "m = n")
    case True
    obtain p where p: "clPolicies s n = Some p" "Spec p' = Spec p" "live p' \<longleftrightarrow> live p"
      using kept [OF p'(1)] True by blast
    have "PolicyReconcile env (ctrl s) n = reconcile_deleting env (ctrl s) n p"
      using p p'(2) answersD(3) [OF healthyD(3) [OF h] p(1)] healthyD(4) [OF h] by (simp add: PolicyReconcile_def)
    then have "idxPolicies s n = Some q" using q True by (auto simp: indexed_deleting split: if_splits)
    with calmD(4) [OF calm p(1)] p p'(2) show ?thesis by simp
  next
    case False
    with p' q indexed_other [OF ok False] show ?thesis by (auto simp: res intro: calmD(4) [OF calm])
  qed
  moreover have "nm_list (TargetSelector (Spec p')) \<noteq> []"
    if "clPolicies (policy_result env n s) m = Some p'" "live p'" for m p'
    using that(2) kept [OF that(1)] calmD(3) [OF calm, of m] by auto
  ultimately show ?thesis
    using calm by (simp add: calm_def res)
qed

lemma healthy_pod_result:
  assumes "answers (getPod env) (clPods s)"
  shows "pod_result env n s = s\<lparr>ctrl := pod_reconciled env (ctrl s) n, dirtyPods := dirtyPods s - {n}\<rparr>"
proof -
  have "fst (PodReconcile env (ctrl s) n) = None"
    using answersD(2,3) [OF assms, of n] by (cases "clPods s n") (auto simp: PodReconcile_eq)
  then show ?thesis by (simp add: pod_result_def case_prod_unfold)
qed

lemma indexed_after_pod:
  assumes get: "answers (getPod env) (clPods s)"
    and i: "gm_get (pods (podIndex (pod_reconciled env (ctrl s) n))) m = Some i"
  shows "idxPods s m = Some i \<or> (\<exists>p. m = n \<and> clPods s n = Some p \<and> PodIP p \<noteq> [] \<and> IP i = PodIP p)"
proof (cases "clPods s n")
  case None
  with answersD(2) [OF get None] i show ?thesis by (auto simp: idxPods_reconciled split: if_splits)
next
  case (Some p)
  with answersD(3) [OF get Some] i show ?thesis by (auto simp: idxPods_reconciled podInfo_of_def split: if_splits)
qed

lemma calm_pod:
  assumes calm: "calm s" and get: "answers (getPod env) (clPods s)"
  shows "calm (pod_result env n s)"
proof -
  let ?s = "pod_result env n s"
  have frame: "clPolicies ?s = clPolicies s" "clPods ?s = clPods s" "dirtyPolicies ?s = dirtyPolicies s"
    "dirtyPods ?s = dirtyPods s - {n}" "ctrl ?s = pod_reconciled env (ctrl s) n"
    by (simp_all add: healthy_pod_result [OF get])
  have "\<forall>k m pod i. clPods s k = Some pod \<longrightarrow> gm_get (pods (podIndex (pod_reconciled env (ctrl s) n))) m = Some i \<longrightarrow>
      IP i = PodIP pod \<longrightarrow> m = k"
  proof (intro allI impI)
    fix k m pod i
    assume pod: "clPods s k = Some pod" and ip: "IP i = PodIP pod"
      and "gm_get (pods (podIndex (pod_reconciled env (ctrl s) n))) m = Some i"
    from indexed_after_pod [OF get this(3)] show "m = k"
    proof (elim disjE exE conjE)
      assume "idxPods s m = Some i"
      from calmD(6) [OF calm pod this ip] show ?thesis .
    next
      fix p
      assume p: "m = n" "clPods s n = Some p" "PodIP p \<noteq> []" "IP i = PodIP p"
      from calmD(5) [OF calm p(2) pod] p ip show ?thesis by simp
    qed
  qed
  moreover note calm [unfolded calm_def]
  ultimately show ?thesis unfolding calm_def frame PodReconcile_policyIndex by (elim conjE, intro conjI) (assumption | rule finite_Diff)+
qed

text \<open>
  A step of \<open>drain\<close> is one of the system, keeps the conditions on the cluster and what its objects ask
  for, and shortens the backlog.
\<close>

definition advances :: "System \<Rightarrow> System \<Rightarrow> bool" where
  "advances s s' \<longleftrightarrow> reachable s' \<and> calm s' \<and> backlog s' < backlog s \<and>
     clPods s' = clPods s \<and> cluster_blocks s' = cluster_blocks s"

lemma backlog_policy:
  assumes "finite (dirtyPolicies s)" and "n \<in> dirtyPolicies s" and "dirtyPods s' = dirtyPods s"
    and other: "\<And>m. m \<noteq> n \<Longrightarrow> clPolicies s' m = clPolicies s m"
    and here: "dirtyPolicies s' = dirtyPolicies s - {n} \<or>
      dirtyPolicies s' = dirtyPolicies s \<and> rank (clPolicies s' n) < rank (clPolicies s n)"
  shows "backlog s' < backlog s"
proof -
  define f where "f t m = Suc (rank (clPolicies t m))" for t :: System and m
  have same: "sum (f s') (dirtyPolicies s - {n}) = sum (f s) (dirtyPolicies s - {n})"
    using other by (intro sum.cong) (auto simp: f_def)
  have split: "sum (f t) (dirtyPolicies s) = f t n + sum (f t) (dirtyPolicies s - {n})" for t
    by (rule sum.remove [OF assms(1,2)])
  have "0 < f s n" by (simp add: f_def)
  from here have "sum (f s') (dirtyPolicies s') < sum (f s) (dirtyPolicies s)"
  proof
    assume "dirtyPolicies s' = dirtyPolicies s - {n}"
    with \<open>0 < f s n\<close> same show ?thesis unfolding split [of s] by simp
  next
    assume "dirtyPolicies s' = dirtyPolicies s \<and> rank (clPolicies s' n) < rank (clPolicies s n)"
    then have "dirtyPolicies s' = dirtyPolicies s" "f s' n < f s n" by (simp_all add: f_def)
    with same show ?thesis by (simp only: split)
  qed
  then show ?thesis unfolding backlog_def f_def using assms(3) by simp
qed

lemma cluster_blocks_cong:
  assumes "\<And>m. map_option Spec (live_policy (clPolicies s' m)) = map_option Spec (live_policy (clPolicies s m))"
  shows "cluster_blocks s' = cluster_blocks s"
proof (rule ext)
  have eq: "cluster_blocks t p =
      {d. \<exists>m sp. map_option Spec (live_policy (clPolicies t m)) = Some sp \<and> nm_list (TargetSelector sp) \<noteq> [] \<and>
        nm_get (TargetSelector sp) \<subseteq>\<^sub>m nm_get (PodLabels p) \<and> d \<in> set (sl_list (BlockList sp))}" for t p
    by (auto simp: cluster_blocks_def)
  show "cluster_blocks s' p = cluster_blocks s p" for p unfolding eq assms ..
qed

lemma live_policy_simps [simp]:
  "live_policy None = None" "live p \<Longrightarrow> live_policy (Some p) = Some p" "\<not> live p \<Longrightarrow> live_policy (Some p) = None"
  by (simp_all add: live_policy_def)

lemma policy_object_spec:
  "map_option Spec (live_policy (fst (policy_object env x))) = map_option Spec (live_policy x)"
proof (cases "\<exists>p. x = Some p \<and> live p")
  case True
  then obtain p where p: "x = Some p" "live p" by blast
  obtain q where "fst (policy_object env (Some p)) = Some q" "Spec q = Spec p" "live q"
    using policy_object_live [OF p(2), of env] .
  with p show ?thesis by simp
next
  case False
  then have "live_policy x = None" by (cases x) auto
  moreover have "live_policy (fst (policy_object env x)) = None"
  proof (cases "fst (policy_object env x)")
    case (Some q)
    then obtain p where "x = Some p" "live q \<longleftrightarrow> live p" by (rule policy_object_keeps)
    with Some False show ?thesis by auto
  qed simp
  ultimately show ?thesis by simp
qed

lemma policy_advances:
  assumes reach: "reachable s" and calm: "calm s" and n: "n \<in> dirtyPolicies s" and h: "healthy env (clPolicies s)"
  shows "advances s (policy_result env n s)"
proof -
  have inv: "sys_inv s" using reach by (rule sys_inv_reachable)
  then have wf: "cluster_wf s" by (simp add: sys_inv_def)
  note res = healthy_result [OF h wf calmD(3) [OF calm]]
  have "sys_step s (policy_result env n s)"
    using healthyD(1) [OF h] answersD(1) [OF healthyD(3) [OF h]] calm_agrees [OF calm h] by (rule policy_reconcile)
  with reach have "reachable (policy_result env n s)" by (rule reach_step)
  moreover have "backlog (policy_result env n s) < backlog s"
  proof (rule backlog_policy [OF calmD(1) [OF calm] n res(4)])
    show "clPolicies (policy_result env n s) m = clPolicies s m" if "m \<noteq> n" for m using that by (simp add: res(1))
    show "dirtyPolicies (policy_result env n s) = dirtyPolicies s - {n} \<or>
      dirtyPolicies (policy_result env n s) = dirtyPolicies s \<and>
      rank (clPolicies (policy_result env n s) n) < rank (clPolicies s n)"
      using n policy_object_rank [OF healthyD(2) [OF h]] by (simp add: res(1,2) insert_absorb)
  qed
  moreover have "cluster_blocks (policy_result env n s) = cluster_blocks s"
    by (rule cluster_blocks_cong) (simp add: res(1) policy_object_spec)
  ultimately show ?thesis using calm_policy [OF inv calm h] res(3) by (simp add: advances_def)
qed

lemma pod_advances:
  assumes reach: "reachable s" and calm: "calm s" and n: "n \<in> dirtyPods s" and get: "answers (getPod env) (clPods s)"
  shows "advances s (pod_result env n s)"
proof -
  have "ip_free (podIndex (ctrl s)) n (PodIP pod)" if "clPods s n = Some pod" for pod
    unfolding ip_free_def using calmD(6) [OF calm that] by blast
  with answersD(1) [OF get] have "sys_step s (pod_result env n s)" by (rule pod_reconcile)
  with reach have "reachable (pod_result env n s)" by (rule reach_step)
  moreover have "backlog (pod_result env n s) < backlog s"
    using n card_Diff1_less [OF calmD(2) [OF calm] n] by (simp add: backlog_def healthy_pod_result [OF get])
  moreover have "cluster_blocks (pod_result env n s) = cluster_blocks s"
    by (rule cluster_blocks_cong) (simp add: healthy_pod_result [OF get])
  ultimately show ?thesis
    using calm_pod [OF calm get, of n] by (simp add: advances_def healthy_pod_result [OF get])
qed

lemma reorder_advances:
  assumes "reachable s" and "calm s" and "same_cache (ctrl s) bc"
  shows "reachable (s\<lparr>ctrl := bc\<rparr>)" and "calm (s\<lparr>ctrl := bc\<rparr>)"
    and "advances (s\<lparr>ctrl := bc\<rparr>) s' \<Longrightarrow> advances s s'"
proof -
  show "reachable (s\<lparr>ctrl := bc\<rparr>)" using assms(1) reorder [OF assms(3)] by (rule reach_step)
  show "calm (s\<lparr>ctrl := bc\<rparr>)" by (rule calm_reorder [OF sys_inv_reachable [OF assms(1)] assms(2,3)])
  have "cluster_blocks (s\<lparr>ctrl := bc\<rparr>) = cluster_blocks s" by (rule cluster_blocks_cong) simp
  then show "advances (s\<lparr>ctrl := bc\<rparr>) s' \<Longrightarrow> advances s s'" by (simp add: advances_def backlog_def)
qed

lemma drain_advances:
  assumes "drain s s'" and "reachable s" and "calm s"
  shows "advances s s'"
  using assms(1)
proof cases
  case (drain_policy n env bc)
  note t = reorder_advances [OF assms(2,3) drain_policy(4)]
  from policy_advances [OF t(1,2), of n env] drain_policy show ?thesis by (intro t(3)) simp
next
  case (drain_pod n env bc)
  note t = reorder_advances [OF assms(2,3) drain_pod(4)]
  from pod_advances [OF t(1,2), of n env] drain_pod show ?thesis by (intro t(3)) simp
qed

lemma drain_run:
  assumes "(drain ^^ k) s s'" and "reachable s" and "calm s"
  shows "reachable s' \<and> calm s' \<and> k + backlog s' \<le> backlog s \<and> clPods s' = clPods s \<and> cluster_blocks s' = cluster_blocks s"
  using assms
proof (induction k arbitrary: s')
  case (Suc k)
  then obtain t where t: "(drain ^^ k) s t" "drain t s'" by auto
  with Suc.IH [OF t(1) Suc.prems(2,3)] drain_advances [OF t(2)] show ?case by (auto simp: advances_def)
qed simp

section \<open>Progress\<close>

text \<open>An API server that answers, for any state of the cluster.\<close>

definition steady_env :: "(NamespacedName \<rightharpoonup> DnsPolicy) \<Rightarrow> PolicyEnv" where
  "steady_env objs = (sample_env None)\<lparr>getPolicy := \<lambda>n. case objs n of None \<Rightarrow> Inl (NotFound []) | Some p \<Rightarrow> Inr p\<rparr>"

definition steady_pods :: "(NamespacedName \<rightharpoonup> Pod) \<Rightarrow> PodEnv" where
  "steady_pods objs = \<lparr>getPod = \<lambda>n. case objs n of None \<Rightarrow> Inl (NotFound []) | Some p \<Rightarrow> Inr p\<rparr>"

lemma steady_ok: "healthy (steady_env objs) objs" "answers (getPod (steady_pods cl)) cl"
  by (auto simp: healthy_def env_laws_def finalizer_laws_def answers_def steady_env_def steady_pods_def sample_env_def
      split: option.split)

lemma same_cache_refl [simp]: "same_cache bc bc"
  by (simp add: same_cache_def same_indexes_def gm_same_def)

lemma drain_enabled:
  assumes "\<not> quiescent s"
  shows "\<exists>s'. drain s s'"
proof -
  consider n where "n \<in> dirtyPolicies s" | n where "n \<in> dirtyPods s" using assms by (auto simp: quiescent_def)
  then show ?thesis
    by cases (blast intro: drain_policy steady_ok same_cache_refl, blast intro: drain_pod steady_ok same_cache_refl)
qed

lemma drain_to_quiescence:
  assumes "reachable s" and "calm s"
  shows "\<exists>s'. drain\<^sup>*\<^sup>* s s' \<and> quiescent s'"
  using assms
proof (induction "backlog s" arbitrary: s rule: less_induct)
  case less
  show ?case
  proof (cases "quiescent s")
    case False
    then obtain t where t: "drain s t" using drain_enabled by blast
    then have "reachable t" "calm t" "backlog t < backlog s"
      using drain_advances [OF t less.prems] by (simp_all add: advances_def)
    with less.hyps t show ?thesis by (meson converse_rtranclp_into_rtranclp)
  qed auto
qed

section \<open>Properties\<close>


text \<open>One new policy and one running pod: two reconciles.\<close>

lemma start_calm: "calm start"
  by (simp add: calm_def start_def initial_cache_def NewBlocklistCache_def NewPodIndex_def NewPolicyIndex_def)
    (simp add: settled_policy_def sample_policy_def)


end
