(* ===== verification/Go_Json.thy ===== *)
theory Go_Json
  imports Go_Prelude "HOL-Library.Char_ord"
begin

text \<open>
  What the sources use of Go's \<^verbatim>\<open>encoding/json\<close>: the compact encoding of strings, numbers, slices,
  structs and maps, with the escapes of Go 1.22 and later (HTML escaping is on in \<^verbatim>\<open>Marshal\<close> and in
  an \<^verbatim>\<open>Encoder\<close>). A Go string is a list of bytes, which need not be UTF-8: the encoder decodes it
  rune by rune and replaces every invalid byte. \<open>parse\<close> is a reader of JSON texts, used to state
  that the encoding loses nothing: it returns every value whose strings are valid UTF-8.
\<close>

datatype json =
    JNull
  | JBool bool
  | JNum int
  | JStr string
  | JArr "json list"
  | JObj "(string \<times> json) list"

abbreviation byte :: "char \<Rightarrow> nat" where
  "byte c \<equiv> of_char c"

section \<open>UTF-8\<close>

definition cont :: "nat \<Rightarrow> nat \<Rightarrow> char \<Rightarrow> bool" where
  "cont lo hi c \<longleftrightarrow> lo \<le> byte c \<and> byte c \<le> hi"

text \<open>The range of the second byte, by the first byte.\<close>

definition second_range :: "nat \<Rightarrow> nat \<times> nat" where
  "second_range b =
     (if b = 0xE0 then (0xA0, 0xBF)
      else if b = 0xED then (0x80, 0x9F)
      else if b = 0xF0 then (0x90, 0xBF)
      else if b = 0xF4 then (0x80, 0x8F)
      else (0x80, 0xBF))"

definition rune_error :: nat where
  "rune_error = 0xFFFD"

text \<open>\<^verbatim>\<open>utf8.DecodeRuneInString\<close>: the rune and the number of bytes it takes.\<close>

definition decode_rune :: "string \<Rightarrow> nat \<times> nat" where
  "decode_rune s =
     (case s of
        [] \<Rightarrow> (rune_error, 0)
      | c0 # cs \<Rightarrow>
          let b0 = byte c0; (lo, hi) = second_range b0
          in if b0 < 0x80 then (b0, 1)
             else if 0xC2 \<le> b0 \<and> b0 \<le> 0xDF then
               (case cs of
                  c1 # _ \<Rightarrow> (if cont lo hi c1 then ((b0 - 0xC0) * 64 + (byte c1 - 0x80), 2) else (rune_error, 1))
                | _ \<Rightarrow> (rune_error, 1))
             else if 0xE0 \<le> b0 \<and> b0 \<le> 0xEF then
               (case cs of
                  c1 # c2 # _ \<Rightarrow>
                    (if cont lo hi c1 \<and> cont 0x80 0xBF c2
                     then ((b0 - 0xE0) * 4096 + (byte c1 - 0x80) * 64 + (byte c2 - 0x80), 3)
                     else (rune_error, 1))
                | _ \<Rightarrow> (rune_error, 1))
             else if 0xF0 \<le> b0 \<and> b0 \<le> 0xF4 then
               (case cs of
                  c1 # c2 # c3 # _ \<Rightarrow>
                    (if cont lo hi c1 \<and> cont 0x80 0xBF c2 \<and> cont 0x80 0xBF c3
                     then ((b0 - 0xF0) * 262144 + (byte c1 - 0x80) * 4096 + (byte c2 - 0x80) * 64 +
                           (byte c3 - 0x80), 4)
                     else (rune_error, 1))
                | _ \<Rightarrow> (rune_error, 1))
             else (rune_error, 1))"

section \<open>Encoding\<close>

definition hex_digit :: "nat \<Rightarrow> char" where
  "hex_digit n = ''0123456789abcdef'' ! (n mod 16)"

definition backslash :: char where
  "backslash = CHR 0x5C"

definition dquote :: char where
  "dquote = CHR 0x22"

text \<open>The bytes below \<^verbatim>\<open>utf8.RuneSelf\<close> that are written as they are.\<close>

definition html_safe :: "char \<Rightarrow> bool" where
  "html_safe c \<longleftrightarrow>
     0x20 \<le> byte c \<and> byte c < 0x80 \<and> c \<noteq> dquote \<and> c \<noteq> backslash \<and>
     c \<noteq> CHR ''<'' \<and> c \<noteq> CHR ''>'' \<and> c \<noteq> CHR ''&''"

definition escape_byte :: "char \<Rightarrow> string" where
  "escape_byte c =
     (if c = backslash \<or> c = dquote then [backslash, c]
      else if byte c = 0x08 then [backslash, CHR ''b'']
      else if byte c = 0x0C then [backslash, CHR ''f'']
      else if byte c = 0x0A then [backslash, CHR ''n'']
      else if byte c = 0x0D then [backslash, CHR ''r'']
      else if byte c = 0x09 then [backslash, CHR ''t'']
      else [backslash, CHR ''u'', CHR ''0'', CHR ''0'', hex_digit (byte c div 16), hex_digit (byte c)])"

function quote_body :: "string \<Rightarrow> string" where
  "quote_body [] = []"
| "quote_body (c # cs) =
     (if byte c < 0x80
      then (if html_safe c then c # quote_body cs else escape_byte c @ quote_body cs)
      else let (r, n) = decode_rune (c # cs)
           in if r = rune_error \<and> n = 1
              then [backslash, CHR ''u'', CHR ''f'', CHR ''f'', CHR ''f'', CHR ''d''] @ quote_body cs
              else if r = 0x2028 \<or> r = 0x2029
              then [backslash, CHR ''u'', CHR ''2'', CHR ''0'', CHR ''2'', hex_digit r] @
                   quote_body (drop (n - 1) cs)
              else take n (c # cs) @ quote_body (drop (n - 1) cs))"
  by pat_completeness auto
termination
  by (relation "measure length") auto

definition quote :: "string \<Rightarrow> string" where
  "quote s = dquote # quote_body s @ [dquote]"

function valid_utf8 :: "string \<Rightarrow> bool" where
  "valid_utf8 [] = True"
| "valid_utf8 (c # cs) =
     (let (r, n) = decode_rune (c # cs)
      in \<not> (r = rune_error \<and> n = 1) \<and> valid_utf8 (drop (n - 1) cs))"
  by pat_completeness auto
termination
  by (relation "measure length") auto

fun dec_nat :: "nat \<Rightarrow> string" where
  "dec_nat n =
     (if n < 10 then [char_of (48 + n)] else dec_nat (n div 10) @ [char_of (48 + n mod 10)])"

declare dec_nat.simps [simp del]

definition dec_int :: "int \<Rightarrow> string" where
  "dec_int i = (if i < 0 then CHR ''-'' # dec_nat (nat (- i)) else dec_nat (nat i))"

fun encode :: "json \<Rightarrow> string" and encode_elems :: "json list \<Rightarrow> string"
  and encode_fields :: "(string \<times> json) list \<Rightarrow> string" where
  "encode JNull = ''null''"
| "encode (JBool b) = (if b then ''true'' else ''false'')"
| "encode (JNum i) = dec_int i"
| "encode (JStr s) = quote s"
| "encode (JArr js) = CHR ''['' # encode_elems js @ '']''"
| "encode (JObj kvs) = CHR ''{'' # encode_fields kvs @ ''}''"
| "encode_elems [] = []"
| "encode_elems [j] = encode j"
| "encode_elems (j # js) = encode j @ CHR '','' # encode_elems js"
| "encode_fields [] = []"
| "encode_fields [(k, j)] = quote k @ CHR '':'' # encode j"
| "encode_fields ((k, j) # kvs) = quote k @ CHR '':'' # encode j @ CHR '','' # encode_fields kvs"

text \<open>\<^verbatim>\<open>json.Marshal\<close>: an error or the text. The types that the sources marshal with it have no error.\<close>

definition Marshal :: "json \<Rightarrow> string + string" where
  "Marshal j = Inr (encode j)"

section \<open>Reading\<close>

definition hex_value :: "char \<Rightarrow> nat option" where
  "hex_value c =
     (let b = byte c
      in if 48 \<le> b \<and> b \<le> 57 then Some (b - 48)
         else if 97 \<le> b \<and> b \<le> 102 then Some (b - 87)
         else if 65 \<le> b \<and> b \<le> 70 then Some (b - 55)
         else None)"

definition hex4 :: "char \<Rightarrow> char \<Rightarrow> char \<Rightarrow> char \<Rightarrow> nat option" where
  "hex4 a b c d =
     (case (hex_value a, hex_value b, hex_value c, hex_value d) of
        (Some w, Some x, Some y, Some z) \<Rightarrow> Some (w * 4096 + x * 256 + y * 16 + z)
      | _ \<Rightarrow> None)"

text \<open>The bytes of a rune of the basic plane.\<close>

definition encode_rune :: "nat \<Rightarrow> string" where
  "encode_rune r =
     (if r < 0x80 then [char_of r]
      else if r < 0x800 then [char_of (0xC0 + r div 64), char_of (0x80 + r mod 64)]
      else [char_of (0xE0 + r div 4096), char_of (0x80 + r div 64 mod 64), char_of (0x80 + r mod 64)])"

definition simple_escape :: "char \<Rightarrow> char option" where
  "simple_escape c =
     (if c = dquote \<or> c = backslash \<or> c = CHR ''/'' then Some c
      else if c = CHR ''b'' then Some (char_of (8 :: nat))
      else if c = CHR ''f'' then Some (char_of (12 :: nat))
      else if c = CHR ''n'' then Some (char_of (10 :: nat))
      else if c = CHR ''r'' then Some (char_of (13 :: nat))
      else if c = CHR ''t'' then Some (char_of (9 :: nat))
      else None)"

definition prepend :: "string \<Rightarrow> (string \<times> 'a) option \<Rightarrow> (string \<times> 'a) option" where
  "prepend xs r = map_option (\<lambda>(s, rest). (xs @ s, rest)) r"

text \<open>Reads a string after its opening quote; returns the string and the rest of the text.\<close>

fun parse_chars :: "string \<Rightarrow> (string \<times> string) option" where
  "parse_chars [] = None"
| "parse_chars (c # cs) =
     (if c = dquote then Some ([], cs)
      else if c \<noteq> backslash then (if byte c < 0x20 then None else prepend [c] (parse_chars cs))
      else (case cs of
              [] \<Rightarrow> None
            | e # cs1 \<Rightarrow>
                if e \<noteq> CHR ''u''
                then (case simple_escape e of None \<Rightarrow> None | Some x \<Rightarrow> prepend [x] (parse_chars cs1))
                else (case cs1 of
                        h1 # h2 # h3 # h4 # cs2 \<Rightarrow>
                          (case hex4 h1 h2 h3 h4 of
                             None \<Rightarrow> None
                           | Some r \<Rightarrow> prepend (encode_rune r) (parse_chars cs2))
                      | _ \<Rightarrow> None)))"

declare parse_chars.simps(2) [simp del]

section \<open>Strings survive the round trip\<close>

lemma prepend_simps [simp]:
  "prepend xs None = None" "prepend xs (Some (s, rest)) = Some (xs @ s, rest)" "prepend [] r = r"
  "prepend xs (prepend ys r) = prepend (xs @ ys) r"
  by (auto simp: prepend_def option.map_comp comp_def case_prod_unfold intro: option.map_ident_strong)

lemma parse_plain:
  "c \<noteq> dquote \<Longrightarrow> c \<noteq> backslash \<Longrightarrow> 0x20 \<le> byte c \<Longrightarrow> parse_chars (c # cs) = prepend [c] (parse_chars cs)"
  by (simp add: parse_chars.simps(2))

lemma parse_high_bytes:
  assumes "\<forall>c \<in> set xs. 0x80 \<le> byte c"
  shows "parse_chars (xs @ ys) = prepend xs (parse_chars ys)"
  using assms
proof (induction xs)
  case (Cons c xs)
  then have "c \<noteq> dquote" "c \<noteq> backslash" "0x20 \<le> byte c" by (auto simp: dquote_def backslash_def)
  with Cons show ?case by (simp add: parse_plain)
qed simp

lemma parse_simple_escape:
  "e \<noteq> CHR ''u'' \<Longrightarrow> simple_escape e = Some x \<Longrightarrow>
     parse_chars (backslash # e # cs) = prepend [x] (parse_chars cs)"
  by (simp add: parse_chars.simps(2) backslash_def dquote_def)

lemma parse_hex_escape:
  "hex4 a b c d = Some r \<Longrightarrow>
     parse_chars (backslash # CHR ''u'' # a # b # c # d # cs) = prepend (encode_rune r) (parse_chars cs)"
  by (simp add: parse_chars.simps(2) backslash_def dquote_def)

lemma hex_value_digit: "hex_value (hex_digit n) = Some (n mod 16)"
proof -
  have "\<forall>k < 16. hex_value (''0123456789abcdef'' ! k) = Some k"
    by (simp add: All_less_Suc numeral_eq_Suc hex_value_def Let_def)
  then show ?thesis by (simp add: hex_digit_def)
qed

lemma hex_value_consts [simp]:
  "hex_value CHR ''0'' = Some 0" "hex_value CHR ''2'' = Some 2"
  by (simp_all add: hex_value_def)

lemma byte_eqD: "byte c = n \<Longrightarrow> c = char_of n"
  by auto

lemma parse_escape_byte:
  assumes "byte c < 0x80" and "\<not> html_safe c"
  shows "parse_chars (escape_byte c @ ys) = prepend [c] (parse_chars ys)"
proof -
  consider "c = backslash \<or> c = dquote" | "byte c \<in> {8, 9, 10, 12, 13}"
    | "c \<noteq> backslash" "c \<noteq> dquote" "byte c \<notin> {8, 9, 10, 12, 13}" by blast
  then show ?thesis
  proof cases
    case 1
    then have "simple_escape c = Some c" "c \<noteq> CHR ''u''"
      by (auto simp: simple_escape_def backslash_def dquote_def)
    with 1 show ?thesis by (simp add: escape_byte_def parse_simple_escape)
  next
    case 2
    then have "c = char_of (8 :: nat) \<or> c = char_of (9 :: nat) \<or> c = char_of (10 :: nat) \<or>
        c = char_of (12 :: nat) \<or> c = char_of (13 :: nat)"
      by (auto dest: byte_eqD)
    then show ?thesis
      by (auto simp: escape_byte_def backslash_def dquote_def simple_escape_def
          intro!: parse_simple_escape [unfolded backslash_def])
  next
    case 3
    have "hex4 CHR ''0'' CHR ''0'' (hex_digit (byte c div 16)) (hex_digit (byte c)) = Some (byte c)"
      using assms(1) by (simp add: hex4_def hex_value_digit)
    moreover have "encode_rune (byte c) = [c]" using assms(1) by (simp add: encode_rune_def)
    ultimately show ?thesis using 3 by (simp add: escape_byte_def parse_hex_escape)
  qed
qed

text \<open>The shape of a rune beyond ASCII that decodes.\<close>

lemma decode_rune_high:
  assumes "decode_rune (c # cs) = (r, n)" and "0x80 \<le> byte c" and "\<not> (r = rune_error \<and> n = 1)"
  shows "2 \<le> n \<and> n \<le> length (c # cs) \<and> (\<forall>x \<in> set (take n (c # cs)). 0x80 \<le> byte x)"
  using assms
  by (auto simp: decode_rune_def Let_def cont_def second_range_def split: if_splits list.splits)

lemma separator_bytes:
  fixes b0 b1 b2 r :: nat
  assumes "0xE0 \<le> b0" and "0x80 \<le> b1" and "b1 \<le> 0xBF" and "0x80 \<le> b2" and "b2 \<le> 0xBF"
    and "(b0 - 0xE0) * 4096 + (b1 - 0x80) * 64 + (b2 - 0x80) = r" and "r = 0x2028 \<or> r = 0x2029"
  shows "b0 = 0xE2 \<and> b1 = 0x80 \<and> b2 = r - 0x1F80"
proof -
  obtain x y z where xyz: "b0 = x + 0xE0" "b1 = y + 0x80" "b2 = z + 0x80"
    using assms by (metis le_add_diff_inverse2)
  then have r: "x * 4096 + y * 64 + z = r" and "y < 64" "z < 64" using assms by simp_all
  then have "x = 2" using assms(7) by auto
  with r \<open>z < 64\<close> have "y = 0" using assms(7) by auto
  with r \<open>x = 2\<close> xyz show ?thesis by simp
qed

lemma decode_rune_two: "decode_rune s = (r, 2) \<Longrightarrow> r < 0x800"
  by (auto simp: decode_rune_def Let_def cont_def second_range_def rune_error_def split: if_splits list.splits)

lemma decode_rune_four: "decode_rune s = (r, 4) \<Longrightarrow> 0x10000 \<le> r"
  by (auto simp: decode_rune_def Let_def cont_def second_range_def rune_error_def split: if_splits list.splits)

lemma decode_rune_three:
  assumes "decode_rune (c # cs) = (r, 3)"
  shows "\<exists>c1 c2 ds. cs = c1 # c2 # ds \<and> 0xE0 \<le> byte c \<and> 0x80 \<le> byte c1 \<and> byte c1 \<le> 0xBF \<and>
    0x80 \<le> byte c2 \<and> byte c2 \<le> 0xBF \<and>
    (byte c - 0xE0) * 4096 + (byte c1 - 0x80) * 64 + (byte c2 - 0x80) = r"
  using assms
  by (auto simp: decode_rune_def Let_def cont_def second_range_def rune_error_def split: if_splits list.splits)

lemma decode_rune_separator:
  assumes "decode_rune (c # cs) = (r, n)" and "0x80 \<le> byte c" and "r = 0x2028 \<or> r = 0x2029"
  shows "take n (c # cs) = encode_rune r"
proof -
  have "2 \<le> n" "n \<le> 4"
    using assms
    by (auto simp: decode_rune_def Let_def case_prod_unfold rune_error_def split: if_splits list.splits)
  moreover have "n \<noteq> 2" "n \<noteq> 4" using assms decode_rune_two decode_rune_four by force+
  ultimately have n: "n = 3" by linarith
  then obtain c1 c2 ds where cs: "cs = c1 # c2 # ds" "byte c = 0xE2" "byte c1 = 0x80" "byte c2 = r - 0x1F80"
    using decode_rune_three [of c cs r] separator_bytes [OF _ _ _ _ _ _ assms(3)] assms(1) by metis
  then have "c = char_of (0xE2 :: nat)" "c1 = char_of (0x80 :: nat)" "c2 = char_of (r - 0x1F80)"
    using byte_eqD [OF cs(2)] byte_eqD [OF cs(3)] byte_eqD [OF cs(4)] by simp_all
  with cs(1) n assms(3) show ?thesis by (auto simp: encode_rune_def)
qed

lemma quote_body_high:
  assumes "decode_rune (c # cs) = (r, n)" and "\<not> byte c < 0x80" and "\<not> (r = rune_error \<and> n = 1)"
  shows "r = 0x2028 \<or> r = 0x2029 \<Longrightarrow> quote_body (c # cs) =
      [backslash, CHR ''u'', CHR ''2'', CHR ''0'', CHR ''2'', hex_digit r] @ quote_body (drop (n - 1) cs)"
    and "\<not> (r = 0x2028 \<or> r = 0x2029) \<Longrightarrow>
      quote_body (c # cs) = take n (c # cs) @ quote_body (drop (n - 1) cs)"
  by (simp_all only: quote_body.simps(2) if_not_P [OF assms(2)] assms(1) Let_def prod.case
      if_not_P [OF assms(3)] if_True if_False)

lemma parse_quote_body:
  "valid_utf8 s \<Longrightarrow> parse_chars (quote_body s @ dquote # rest) = Some (s, rest)"
proof (induction s rule: quote_body.induct)
  case 1
  show ?case by (simp add: parse_chars.simps(2))
next
  case (2 c cs)
  show ?case
  proof (cases "byte c < 0x80")
    case True
    then have "valid_utf8 cs" using "2.prems" by (simp add: decode_rune_def Let_def case_prod_unfold)
    with 2(1,2) True show ?thesis
      by (cases "html_safe c") (auto simp: html_safe_def parse_plain parse_escape_byte)
  next
    case False
    obtain r n where rn: "decode_rune (c # cs) = (r, n)" by fastforce
    have ok: "\<not> (r = rune_error \<and> n = 1)" "valid_utf8 (drop (n - 1) cs)"
      using "2.prems" rn by simp_all
    have high: "2 \<le> n \<and> n \<le> length (c # cs) \<and> (\<forall>x \<in> set (take n (c # cs)). 0x80 \<le> byte x)"
      using False rn ok by (intro decode_rune_high) simp_all
    have split: "take n (c # cs) @ drop (n - 1) cs = c # cs"
      using high by (cases n) simp_all
    show ?thesis
    proof (cases "r = 0x2028 \<or> r = 0x2029")
      case True
      have "hex4 CHR ''2'' CHR ''0'' CHR ''2'' (hex_digit r) = Some r"
        using True by (auto simp: hex4_def hex_value_digit)
      then have "parse_chars (quote_body (c # cs) @ dquote # rest) =
          prepend (encode_rune r) (parse_chars (quote_body (drop (n - 1) cs) @ dquote # rest))"
        unfolding quote_body_high(1) [OF rn False ok(1) True] by (simp add: parse_hex_escape)
      also have "\<dots> = Some (encode_rune r @ drop (n - 1) cs, rest)"
        using 2(4) [OF False rn [symmetric] refl ok(1) True ok(2)] by simp
      also have "encode_rune r = take n (c # cs)"
        using False by (intro decode_rune_separator [OF rn _ True, symmetric]) simp
      finally show ?thesis by (simp only: split)
    next
      case sep: False
      then have "parse_chars (quote_body (c # cs) @ dquote # rest) =
          parse_chars (take n (c # cs) @ (quote_body (drop (n - 1) cs) @ dquote # rest))"
        unfolding quote_body_high(2) [OF rn False ok(1) sep] by simp
      also have "\<dots> = prepend (take n (c # cs)) (parse_chars (quote_body (drop (n - 1) cs) @ dquote # rest))"
        using high by (intro parse_high_bytes) blast
      also have "\<dots> = Some (take n (c # cs) @ drop (n - 1) cs, rest)"
        using 2(5) [OF False rn [symmetric] refl ok(1) sep ok(2)] by simp
      finally show ?thesis by (simp only: split)
    qed
  qed
qed

section \<open>Values survive the round trip\<close>

definition is_digit :: "char \<Rightarrow> bool" where
  "is_digit c \<longleftrightarrow> 48 \<le> byte c \<and> byte c \<le> 57"

definition digits_value :: "string \<Rightarrow> nat" where
  "digits_value ds = foldl (\<lambda>v d. v * 10 + (byte d - 48)) 0 ds"

definition parse_nat :: "string \<Rightarrow> (nat \<times> string) option" where
  "parse_nat s =
     (case takeWhile is_digit s of
        [] \<Rightarrow> None
      | ds \<Rightarrow> Some (digits_value ds, dropWhile is_digit s))"

text \<open>
  The reader of values, elements and fields. The first argument bounds the number of nested calls;
  \<open>parse_encode\<close> shows that the length of the text is always enough.
\<close>

definition parse_string :: "string \<Rightarrow> (string \<times> string) option" where
  "parse_string s = (case s of c # cs \<Rightarrow> (if c = dquote then parse_chars cs else None) | [] \<Rightarrow> None)"

fun parse_value :: "nat \<Rightarrow> string \<Rightarrow> (json \<times> string) option"
  and parse_elems :: "nat \<Rightarrow> string \<Rightarrow> (json list \<times> string) option"
  and parse_fields :: "nat \<Rightarrow> string \<Rightarrow> ((string \<times> json) list \<times> string) option" where
  "parse_value 0 s = None"
| "parse_value (Suc f) s =
     (case s of
        [] \<Rightarrow> None
      | c # cs \<Rightarrow>
          if c = CHR ''n'' then (if take 3 cs = ''ull'' then Some (JNull, drop 3 cs) else None)
          else if c = CHR ''t'' then (if take 3 cs = ''rue'' then Some (JBool True, drop 3 cs) else None)
          else if c = CHR ''f'' then (if take 4 cs = ''alse'' then Some (JBool False, drop 4 cs) else None)
          else if c = dquote then map_option (\<lambda>(x, r). (JStr x, r)) (parse_chars cs)
          else if c = CHR ''['' then
            (if take 1 cs = '']'' then Some (JArr [], drop 1 cs)
             else map_option (\<lambda>(js, r). (JArr js, r)) (parse_elems f cs))
          else if c = CHR ''{'' then
            (if take 1 cs = ''}'' then Some (JObj [], drop 1 cs)
             else map_option (\<lambda>(kvs, r). (JObj kvs, r)) (parse_fields f cs))
          else if c = CHR ''-'' then map_option (\<lambda>(n, r). (JNum (- int n), r)) (parse_nat cs)
          else map_option (\<lambda>(n, r). (JNum (int n), r)) (parse_nat s))"
| "parse_elems 0 s = None"
| "parse_elems (Suc f) s =
     (case parse_value f s of
        Some (j, c # r) \<Rightarrow>
          (if c = CHR '']'' then Some ([j], r)
           else if c = CHR '','' then map_option (\<lambda>(js, r'). (j # js, r')) (parse_elems f r)
           else None)
      | _ \<Rightarrow> None)"
| "parse_fields 0 s = None"
| "parse_fields (Suc f) s =
     (case parse_string s of
        Some (k, d # r0) \<Rightarrow>
          (if d \<noteq> CHR '':'' then None
           else (case parse_value f r0 of
                   Some (j, c # r) \<Rightarrow>
                     (if c = CHR ''}'' then Some ([(k, j)], r)
                      else if c = CHR '','' then map_option (\<lambda>(kvs, r'). ((k, j) # kvs, r')) (parse_fields f r)
                      else None)
                 | _ \<Rightarrow> None))
      | _ \<Rightarrow> None)"

definition parse :: "string \<Rightarrow> json option" where
  "parse s =
     (case parse_value (length s) s of
        Some (j, r) \<Rightarrow> (if r = [] \<or> r = [char_of (10 :: nat)] then Some j else None)
      | None \<Rightarrow> None)"

fun json_ok :: "json \<Rightarrow> bool" and elems_ok :: "json list \<Rightarrow> bool" and fields_ok :: "(string \<times> json) list \<Rightarrow> bool" where
  "json_ok JNull = True"
| "json_ok (JBool b) = True"
| "json_ok (JNum i) = True"
| "json_ok (JStr s) = valid_utf8 s"
| "json_ok (JArr js) = elems_ok js"
| "json_ok (JObj kvs) = fields_ok kvs"
| "elems_ok [] = True"
| "elems_ok (j # js) = (json_ok j \<and> elems_ok js)"
| "fields_ok [] = True"
| "fields_ok ((k, j) # kvs) = (valid_utf8 k \<and> json_ok j \<and> fields_ok kvs)"

lemma parse_string_quote: "valid_utf8 k \<Longrightarrow> parse_string (quote k @ rest) = Some (k, rest)"
  by (simp add: parse_string_def quote_def parse_quote_body)

text \<open>Numbers.\<close>

lemma is_digit_char [simp]: "n < 10 \<Longrightarrow> is_digit (char_of (48 + n))" "n < 10 \<Longrightarrow> byte (char_of (48 + n)) = 48 + n"
  by (simp_all add: is_digit_def)

lemma dec_nat_digits: "(\<forall>c \<in> set (dec_nat n). is_digit c) \<and> dec_nat n \<noteq> []"
proof (induction n rule: dec_nat.induct)
  case (1 n)
  then show ?case
    by (cases "n < 10") (auto simp: dec_nat.simps [of n])
qed

lemma digits_value_dec: "digits_value (dec_nat n) = n"
proof (induction n rule: dec_nat.induct)
  case (1 n)
  then show ?case
    by (cases "n < 10") (auto simp: dec_nat.simps [of n] digits_value_def)
qed

definition rest_ok :: "string \<Rightarrow> bool" where
  "rest_ok r \<longleftrightarrow> (case r of [] \<Rightarrow> True | c # _ \<Rightarrow> \<not> is_digit c)"

lemma parse_nat_dec:
  assumes "rest_ok r"
  shows "parse_nat (dec_nat n @ r) = Some (n, r)"
proof -
  have "takeWhile is_digit (dec_nat n @ r) = dec_nat n @ takeWhile is_digit r"
    "dropWhile is_digit (dec_nat n @ r) = dropWhile is_digit r"
    using dec_nat_digits [of n] by simp_all
  moreover have "takeWhile is_digit r = []" "dropWhile is_digit r = r"
    using assms by (auto simp: rest_ok_def split: list.splits)
  ultimately show ?thesis
    using dec_nat_digits [of n] digits_value_dec [of n]
    by (cases "dec_nat n") (simp_all add: parse_nat_def)
qed

lemma dec_nat_hd: "\<exists>c cs. dec_nat n = c # cs \<and> is_digit c"
  using dec_nat_digits [of n] by (cases "dec_nat n") auto

lemma parse_value_num:
  assumes "rest_ok r"
  shows "parse_value (Suc f) (dec_int i @ r) = Some (JNum i, r)"
proof (cases "i < 0")
  case True
  then show ?thesis using parse_nat_dec [OF assms] by (simp add: dec_int_def dquote_def)
next
  case False
  obtain c cs where c: "dec_nat (nat i) = c # cs" "is_digit c" using dec_nat_hd by blast
  then have "c \<notin> {CHR ''n'', CHR ''t'', CHR ''f'', dquote, CHR ''['', CHR ''{'', CHR ''-''}"
    by (auto simp: is_digit_def dquote_def)
  then have "parse_value (Suc f) (c # cs @ r) = map_option (\<lambda>(n, r). (JNum (int n), r)) (parse_nat (c # cs @ r))"
    by simp
  with False c parse_nat_dec [OF assms, of "nat i"] show ?thesis by (simp add: dec_int_def)
qed

text \<open>The number of nested calls that reading a value takes.\<close>

fun jsize :: "json \<Rightarrow> nat" and esize :: "json list \<Rightarrow> nat" and fsize :: "(string \<times> json) list \<Rightarrow> nat" where
  "jsize (JArr js) = Suc (esize js)"
| "jsize (JObj kvs) = Suc (fsize kvs)"
| "jsize j = 1"
| "esize [] = 0"
| "esize (j # js) = Suc (jsize j + esize js)"
| "fsize [] = 0"
| "fsize ((k, j) # kvs) = Suc (jsize j + fsize kvs)"

lemma size_bounds:
  "jsize j \<le> length (encode j)" "esize js \<le> Suc (length (encode_elems js))"
  "fsize kvs \<le> Suc (length (encode_fields kvs))"
proof (induction j and js and kvs rule: encode_encode_elems_encode_fields.induct)
  case (3 i)
  then show ?case using dec_nat_hd by (auto simp: dec_int_def Suc_le_eq) (metis list.distinct(1))
qed (auto simp: quote_def)

definition starter :: "char \<Rightarrow> bool" where
  "starter c \<longleftrightarrow> c \<noteq> CHR '']'' \<and> c \<noteq> CHR ''}''"

lemma encode_hd: "\<exists>c cs. encode j = c # cs \<and> starter c"
proof (cases j)
  case (JNum i)
  then show ?thesis
    using dec_nat_hd [of "nat i"] by (auto simp: dec_int_def starter_def is_digit_def)
qed (auto simp: quote_def starter_def dquote_def)

lemma encode_elems_hd: "js \<noteq> [] \<Longrightarrow> \<exists>c cs. encode_elems js = c # cs \<and> starter c"
proof -
  assume "js \<noteq> []"
  then obtain j js' where js: "js = j # js'" by (cases js) auto
  obtain c cs where "encode j = c # cs" "starter c" using encode_hd by blast
  then show ?thesis by (cases js') (simp_all add: js)
qed

lemma encode_fields_hd: "kvs \<noteq> [] \<Longrightarrow> \<exists>cs. encode_fields kvs = dquote # cs"
  by (cases kvs rule: encode_fields.cases) (auto simp: quote_def)

lemma rest_ok_simps [simp]:
  "rest_ok []" "rest_ok (CHR '','' # r)" "rest_ok (CHR '']'' # r)" "rest_ok (CHR ''}'' # r)"
  "rest_ok [char_of (10 :: nat)]"
  by (simp_all add: rest_ok_def is_digit_def)

lemma parse_value_arr:
  "js \<noteq> [] \<Longrightarrow> parse_value (Suc f) (encode (JArr js) @ r) =
     map_option (\<lambda>(js, r). (JArr js, r)) (parse_elems f (encode_elems js @ CHR '']'' # r))"
  using encode_elems_hd [of js] by (auto simp: starter_def dquote_def)

lemma parse_value_obj:
  "kvs \<noteq> [] \<Longrightarrow> parse_value (Suc f) (encode (JObj kvs) @ r) =
     map_option (\<lambda>(kvs, r). (JObj kvs, r)) (parse_fields f (encode_fields kvs @ CHR ''}'' # r))"
  using encode_fields_hd [of kvs] by (auto simp: dquote_def)

lemma parse_value_encode:
  "json_ok j \<Longrightarrow> rest_ok r \<Longrightarrow> jsize j \<le> f \<Longrightarrow> parse_value f (encode j @ r) = Some (j, r)"
  "elems_ok js \<Longrightarrow> js \<noteq> [] \<Longrightarrow> esize js \<le> f \<Longrightarrow>
     parse_elems f (encode_elems js @ CHR '']'' # r) = Some (js, r)"
  "fields_ok kvs \<Longrightarrow> kvs \<noteq> [] \<Longrightarrow> fsize kvs \<le> f \<Longrightarrow>
     parse_fields f (encode_fields kvs @ CHR ''}'' # r) = Some (kvs, r)"
proof (induction j and js and kvs arbitrary: f r and f r and f r rule: encode_encode_elems_encode_fields.induct)
  case 1
  then show ?case by (cases f) simp_all
next
  case (2 b)
  then show ?case by (cases f) (simp_all add: dquote_def)
next
  case (3 i)
  then show ?case by (cases f) (simp_all only: encode.simps parse_value_num, simp)
next
  case (4 s)
  then show ?case by (cases f) (simp_all add: quote_def parse_quote_body, simp add: dquote_def)
next
  case (5 js)
  then obtain f' where f: "f = Suc f'" by (cases f) simp_all
  show ?case
  proof (cases "js = []")
    case True
    then show ?thesis by (simp add: f dquote_def)
  next
    case False
    with 5 show ?thesis unfolding f by (subst parse_value_arr) simp_all
  qed
next
  case (6 kvs)
  then obtain f' where f: "f = Suc f'" by (cases f) simp_all
  show ?case
  proof (cases "kvs = []")
    case True
    then show ?thesis by (simp add: f dquote_def)
  next
    case False
    with 6 show ?thesis unfolding f by (subst parse_value_obj) simp_all
  qed
next
  case (8 j)
  then show ?case by (cases f) simp_all
next
  case (9 j j' js)
  then show ?case by (cases f) simp_all
next
  case (11 k j)
  then show ?case by (cases f) (simp_all add: parse_string_quote)
next
  case (12 k j kv kvs)
  then show ?case by (cases f) (simp_all add: parse_string_quote)
qed simp_all

lemma parse_encode:
  assumes "json_ok j" and "nl = [] \<or> nl = [char_of (10 :: nat)]"
  shows "parse (encode j @ nl) = Some j"
proof -
  have "jsize j \<le> length (encode j @ nl)" using size_bounds(1) [of j] by simp
  then have "parse_value (length (encode j @ nl)) (encode j @ nl) = Some (j, nl)"
    using assms by (intro parse_value_encode) auto
  then show ?thesis using assms(2) by (simp add: parse_def)
qed

lemma parse_encode_bare: "json_ok j \<Longrightarrow> parse (encode j) = Some j"
  using parse_encode [of j "[]"] by simp

lemma encode_inj: "json_ok j \<Longrightarrow> json_ok j' \<Longrightarrow> encode j = encode j' \<Longrightarrow> j = j'"
  using parse_encode [of j "[]"] parse_encode [of j' "[]"] by simp

end
