(* ===== verification/Go_Flag.thy ===== *)
theory Go_Flag
  imports Go_Json
begin

text \<open>
  What the two \<^verbatim>\<open>main.go\<close> files use of Go's packages \<^verbatim>\<open>flag\<close> and \<^verbatim>\<open>strconv\<close>: the registration of string,
  bool and int flags, the parsing of the command line with \<^verbatim>\<open>flag.ExitOnError\<close>, \<^verbatim>\<open>ParseBool\<close> and
  \<^verbatim>\<open>ParseInt\<close> with base 0 and 64 bits. A flag that a third-party package registers is an \<open>ExtFlag\<close>:
  whether it is a boolean flag and which texts its \<^verbatim>\<open>Set\<close> accepts. The main lemma is
  \<open>Parse_rendered\<close>: settings written as \<^verbatim>\<open>--name=value\<close> are read back.
\<close>

section \<open>Programs that may end early\<close>

text \<open>A panic, a call of \<^verbatim>\<open>os.Exit\<close> with its code, or a value with which the program goes on.\<close>

datatype 'a process = Panics string | Exits nat | Continues 'a

fun and_then :: "'a process \<Rightarrow> ('a \<Rightarrow> 'b process) \<Rightarrow> 'b process" where
  "and_then (Panics msg) f = Panics msg"
| "and_then (Exits code) f = Exits code"
| "and_then (Continues a) f = f a"

section \<open>Reading numbers and truth values\<close>

text \<open>\<^verbatim>\<open>lower(c)\<close> of \<^verbatim>\<open>strconv\<close> sets bit 5 of the byte.\<close>

definition lower :: "char \<Rightarrow> char" where
  "lower c = (if odd (byte c div 32) then c else char_of (byte c + 32))"

definition digit_of :: "char \<Rightarrow> nat option" where
  "digit_of c =
     (if is_digit c then Some (byte c - 48)
      else if 97 \<le> byte (lower c) \<and> byte (lower c) \<le> 122 then Some (byte (lower c) - 87)
      else None)"

fun uint_loop :: "nat \<Rightarrow> string \<Rightarrow> nat \<Rightarrow> nat option" where
  "uint_loop base [] n = Some n"
| "uint_loop base (c # cs) n =
     (if c = CHR ''_'' then uint_loop base cs n
      else case digit_of c of
             None \<Rightarrow> None
           | Some d \<Rightarrow>
               if d \<ge> base then None
               else if n * base + d \<ge> 2 ^ 64 then None
               else uint_loop base cs (n * base + d))"

text \<open>The base that the prefix of a number stands for, and the digits after it.\<close>

definition base_prefix :: "string \<Rightarrow> nat \<times> string" where
  "base_prefix s =
     (case s of
        [] \<Rightarrow> (10, s)
      | c # cs \<Rightarrow>
          if c \<noteq> CHR ''0'' then (10, s)
          else if length s \<ge> 3 \<and> lower (s ! 1) = CHR ''b'' then (2, drop 2 s)
          else if length s \<ge> 3 \<and> lower (s ! 1) = CHR ''o'' then (8, drop 2 s)
          else if length s \<ge> 3 \<and> lower (s ! 1) = CHR ''x'' then (16, drop 2 s)
          else (8, cs))"

text \<open>\<^verbatim>\<open>underscoreOK\<close>: the last character seen is a begin, a digit, an underscore or another one.\<close>

datatype saw = SawBegin | SawDigit | SawUnderscore | SawOther

fun underscore_loop :: "bool \<Rightarrow> saw \<Rightarrow> string \<Rightarrow> bool" where
  "underscore_loop hex saw [] = (saw \<noteq> SawUnderscore)"
| "underscore_loop hex saw (c # cs) =
     (if is_digit c \<or> (hex \<and> 97 \<le> byte (lower c) \<and> byte (lower c) \<le> 102)
      then underscore_loop hex SawDigit cs
      else if c = CHR ''_''
      then (if saw \<noteq> SawDigit then False else underscore_loop hex SawUnderscore cs)
      else (if saw = SawUnderscore then False else underscore_loop hex SawOther cs))"

definition underscoreOK :: "string \<Rightarrow> bool" where
  "underscoreOK s =
     (if length s \<ge> 2 \<and> s ! 0 = CHR ''0'' \<and> lower (s ! 1) \<in> {CHR ''b'', CHR ''o'', CHR ''x''}
      then underscore_loop (lower (s ! 1) = CHR ''x'') SawDigit (drop 2 s)
      else underscore_loop False SawBegin s)"

definition ParseUint :: "string \<Rightarrow> nat option" where
  "ParseUint s =
     (if s = [] then None
      else let (base, ds) = base_prefix s
           in case uint_loop base ds 0 of
                None \<Rightarrow> None
              | Some n \<Rightarrow> if CHR ''_'' \<in> set ds \<and> \<not> underscoreOK s then None else Some n)"

definition ParseInt :: "string \<Rightarrow> int option" where
  "ParseInt s =
     (case s of
        [] \<Rightarrow> None
      | c # cs \<Rightarrow>
          let neg = (c = CHR ''-'');
              digits = (if c = CHR ''+'' \<or> c = CHR ''-'' then cs else s)
          in (case ParseUint digits of
                None \<Rightarrow> None
              | Some un \<Rightarrow>
                  if \<not> neg \<and> un \<ge> 2 ^ 63 then None
                  else if neg \<and> un > 2 ^ 63 then None
                  else Some (if neg then - int un else int un)))"

definition ParseBool :: "string \<Rightarrow> bool option" where
  "ParseBool s =
     (if s \<in> {''1'', ''t'', ''T'', ''true'', ''TRUE'', ''True''} then Some True
      else if s \<in> {''0'', ''f'', ''F'', ''false'', ''FALSE'', ''False''} then Some False
      else None)"

section \<open>Flags\<close>

datatype flag_kind = StringFlag | BoolFlag | IntFlag | ExtFlag bool "string \<Rightarrow> bool"

datatype flag_value = StrV string | BoolV bool | IntV int | ExtV string

record FlagSet =
  formal :: "(string, flag_kind) gomap"
  actual :: "(string, flag_value) gomap"

definition NewFlagSet :: FlagSet where
  "NewFlagSet = \<lparr>formal = [], actual = []\<rparr>"

text \<open>\<^verbatim>\<open>FlagSet.Var\<close> panics on a name that cannot be a flag and on one that is defined already.\<close>

definition flag_name_ok :: "string \<Rightarrow> bool" where
  "flag_name_ok name \<longleftrightarrow> (case name of [] \<Rightarrow> True | c # _ \<Rightarrow> c \<noteq> CHR ''-'') \<and> CHR ''='' \<notin> set name"

definition flag_Var :: "string \<Rightarrow> flag_kind \<Rightarrow> flag_value \<Rightarrow> FlagSet \<Rightarrow> FlagSet process" where
  "flag_Var name kind initial fs =
     (if \<not> flag_name_ok name then Panics (''bad flag name: '' @ name)
      else if gm_get (formal fs) name \<noteq> None then Panics (''flag redefined: '' @ name)
      else Continues (fs\<lparr>formal := gm_put name kind (formal fs), actual := gm_put name initial (actual fs)\<rparr>))"

type_synonym flag_decl = "string \<times> flag_kind \<times> flag_value"

primrec flag_Vars :: "flag_decl list \<Rightarrow> FlagSet \<Rightarrow> FlagSet process" where
  "flag_Vars [] fs = Continues fs"
| "flag_Vars (decl # decls) fs =
     and_then (flag_Var (fst decl) (fst (snd decl)) (snd (snd decl)) fs) (flag_Vars decls)"

definition IsBoolFlag :: "flag_kind \<Rightarrow> bool" where
  "IsBoolFlag kind = (case kind of BoolFlag \<Rightarrow> True | ExtFlag b _ \<Rightarrow> b | _ \<Rightarrow> False)"

definition flag_Set :: "flag_kind \<Rightarrow> string \<Rightarrow> flag_value option" where
  "flag_Set kind text =
     (case kind of
        StringFlag \<Rightarrow> Some (StrV text)
      | BoolFlag \<Rightarrow> map_option BoolV (ParseBool text)
      | IntFlag \<Rightarrow> map_option IntV (ParseInt text)
      | ExtFlag _ accepts \<Rightarrow> (if accepts text then Some (ExtV text) else None))"

datatype parse_result = NoMore | HelpRequested | FlagError string | OneMore FlagSet "string list"

definition set_or_fail :: "FlagSet \<Rightarrow> string \<Rightarrow> flag_kind \<Rightarrow> string \<Rightarrow> string list \<Rightarrow> parse_result" where
  "set_or_fail fs name kind text args =
     (case flag_Set kind text of
        None \<Rightarrow> FlagError (''invalid value for flag -'' @ name)
      | Some v \<Rightarrow> OneMore (fs\<lparr>actual := gm_put name v (actual fs)\<rparr>) args)"

text \<open>A flag without its dashes, \<^verbatim>\<open>name\<close> or \<^verbatim>\<open>name=value\<close>; the equals sign cannot come first.\<close>

definition parse_named :: "FlagSet \<Rightarrow> string \<Rightarrow> string list \<Rightarrow> parse_result" where
  "parse_named fs s args =
     (let name = hd s # takeWhile (\<lambda>c. c \<noteq> CHR ''='') (tl s);
          hasValue = CHR ''='' \<in> set (tl s);
          text = tl (dropWhile (\<lambda>c. c \<noteq> CHR ''='') (tl s))
      in case gm_get (formal fs) name of
           None \<Rightarrow> (if name = ''help'' \<or> name = ''h'' then HelpRequested
                    else FlagError (''flag provided but not defined: -'' @ name))
         | Some kind \<Rightarrow>
             if IsBoolFlag kind
             then set_or_fail fs name kind (if hasValue then text else ''true'') args
             else if hasValue then set_or_fail fs name kind text args
             else (case args of
                     [] \<Rightarrow> FlagError (''flag needs an argument: -'' @ name)
                   | next_arg # rest \<Rightarrow> set_or_fail fs name kind next_arg rest))"

definition parseOne :: "FlagSet \<Rightarrow> string list \<Rightarrow> parse_result" where
  "parseOne fs args =
     (case args of
        [] \<Rightarrow> NoMore
      | s # rest \<Rightarrow>
          if length s < 2 \<or> s ! 0 \<noteq> CHR ''-'' then NoMore
          else if s = ''--'' then NoMore
          else let name = (if s ! 1 = CHR ''-'' then drop 2 s else drop 1 s)
               in if name = [] \<or> hd name = CHR ''-'' \<or> hd name = CHR ''='' then FlagError (''bad flag syntax: '' @ s)
                  else parse_named fs name rest)"

lemma parseOne_shorter: "parseOne fs args = OneMore fs' rest \<Longrightarrow> length rest < length args"
  by (auto simp: parseOne_def parse_named_def set_or_fail_def Let_def split: list.splits if_splits option.splits)

text \<open>\<^verbatim>\<open>flag.Parse\<close>: help ends the program with code 0, an error with code 2.\<close>

function Parse :: "FlagSet \<Rightarrow> string list \<Rightarrow> FlagSet process" where
  "Parse fs args =
     (case parseOne fs args of
        NoMore \<Rightarrow> Continues fs
      | HelpRequested \<Rightarrow> Exits 0
      | FlagError _ \<Rightarrow> Exits 2
      | OneMore fs' rest \<Rightarrow> Parse fs' rest)"
  by pat_completeness auto
termination
  by (relation "measure (\<lambda>(fs, args). length args)") (auto dest: parseOne_shorter)

declare Parse.simps [simp del]

section \<open>Numbers survive the round trip\<close>

lemma ParseInt_bounds: "ParseInt s = Some i \<Longrightarrow> - (2 ^ 63) \<le> i \<and> i < 2 ^ 63"
  by (auto simp: ParseInt_def Let_def split: list.splits option.splits if_splits)

abbreviation decimal_step :: "nat \<Rightarrow> char \<Rightarrow> nat" where
  "decimal_step \<equiv> \<lambda>v d. v * 10 + (byte d - 48)"

lemma foldl_decimal_ge: "n \<le> foldl decimal_step n ds"
proof (induction ds arbitrary: n)
  case (Cons d ds)
  have "n \<le> decimal_step n d" by simp
  also have "\<dots> \<le> foldl decimal_step (decimal_step n d) ds" by (rule Cons.IH)
  finally show ?case by simp
qed simp

lemma uint_loop_decimal:
  assumes "\<forall>c \<in> set ds. is_digit c" and "foldl decimal_step n ds < 2 ^ 64"
  shows "uint_loop 10 ds n = Some (foldl decimal_step n ds)"
  using assms
proof (induction ds arbitrary: n)
  case (Cons d ds)
  have "decimal_step n d < 2 ^ 64"
    using foldl_decimal_ge [of "decimal_step n d" ds] Cons.prems(2) by simp
  moreover have "d \<noteq> CHR ''_''" "byte d - 48 < 10" using Cons.prems(1) by (auto simp: is_digit_def)
  ultimately show ?case using Cons by (simp add: digit_of_def)
qed simp

lemma dec_nat_first: "0 < n \<Longrightarrow> hd (dec_nat n) \<noteq> CHR ''0''"
proof (induction n rule: dec_nat.induct)
  case (1 n)
  show ?case
  proof (cases "n < 10")
    case True
    have "char_of (48 + n) \<noteq> CHR ''0''" using is_digit_char(2) [of n] True 1(2) by force
    then show ?thesis using True by (simp add: dec_nat.simps [of n])
  next
    case False
    then show ?thesis using 1(1) dec_nat_digits [of "n div 10"] by (simp add: dec_nat.simps [of n])
  qed
qed

lemma ParseUint_dec: "n < 2 ^ 64 \<Longrightarrow> ParseUint (dec_nat n) = Some n"
proof (cases "n = 0")
  case True
  have "dec_nat 0 = ''0''" by (simp add: dec_nat.simps char_of_def bit_Suc_0_iff)
  with True show ?thesis by (simp add: ParseUint_def base_prefix_def)
next
  case False
  assume "n < 2 ^ 64"
  then have loop: "uint_loop 10 (dec_nat n) 0 = Some n"
    using uint_loop_decimal [of "dec_nat n" 0] dec_nat_digits [of n] digits_value_dec [of n]
    by (simp add: digits_value_def)
  have "base_prefix (dec_nat n) = (10, dec_nat n)"
    using dec_nat_first [of n] False by (cases "dec_nat n") (simp_all add: base_prefix_def)
  moreover have "CHR ''_'' \<notin> set (dec_nat n)" using dec_nat_digits [of n] by (auto simp: is_digit_def)
  ultimately show ?thesis using loop dec_nat_digits [of n] by (simp add: ParseUint_def)
qed

lemma ParseInt_dec:
  assumes "- (2 ^ 63) \<le> i" and "i < 2 ^ 63"
  shows "ParseInt (dec_int i) = Some i"
proof (cases "i < 0")
  case True
  then have "ParseUint (dec_nat (nat (- i))) = Some (nat (- i))" using assms by (intro ParseUint_dec) simp
  with True assms show ?thesis by (simp add: ParseInt_def dec_int_def)
next
  case False
  then have uint: "ParseUint (dec_nat (nat i)) = Some (nat i)" using assms by (intro ParseUint_dec) simp
  obtain c cs where c: "dec_nat (nat i) = c # cs" "is_digit c" using dec_nat_hd by blast
  then have "c \<noteq> CHR ''-''" "c \<noteq> CHR ''+''" by (auto simp: is_digit_def)
  with False assms uint c(1) show ?thesis by (simp add: ParseInt_def dec_int_def)
qed

section \<open>Settings survive the round trip\<close>

definition render_value :: "flag_value \<Rightarrow> string" where
  "render_value v =
     (case v of StrV s \<Rightarrow> s | BoolV b \<Rightarrow> (if b then ''true'' else ''false'') | IntV i \<Rightarrow> dec_int i | ExtV s \<Rightarrow> s)"

definition render_flag :: "string \<times> flag_value \<Rightarrow> string" where
  "render_flag nv = ''--'' @ fst nv @ ''='' @ render_value (snd nv)"

text \<open>The values that a flag of a kind can have, and those that can be given on the command line.\<close>

definition has_kind :: "flag_kind \<Rightarrow> flag_value \<Rightarrow> bool" where
  "has_kind kind v =
     (case kind of
        StringFlag \<Rightarrow> (case v of StrV _ \<Rightarrow> True | _ \<Rightarrow> False)
      | BoolFlag \<Rightarrow> (case v of BoolV _ \<Rightarrow> True | _ \<Rightarrow> False)
      | IntFlag \<Rightarrow> (case v of IntV i \<Rightarrow> - (2 ^ 63) \<le> i \<and> i < 2 ^ 63 | _ \<Rightarrow> False)
      | ExtFlag _ _ \<Rightarrow> (case v of ExtV _ \<Rightarrow> True | _ \<Rightarrow> False))"

definition value_fits :: "flag_kind \<Rightarrow> flag_value \<Rightarrow> bool" where
  "value_fits kind v \<longleftrightarrow>
     has_kind kind v \<and> (case kind of ExtFlag _ accepts \<Rightarrow> accepts (render_value v) | _ \<Rightarrow> True)"

lemma flag_Set_render: "value_fits kind v \<Longrightarrow> flag_Set kind (render_value v) = Some v"
  by (cases kind; cases v)
    (simp_all add: value_fits_def has_kind_def flag_Set_def render_value_def ParseBool_def ParseInt_dec)

lemma flag_Set_kind: "flag_Set kind s = Some v \<Longrightarrow> has_kind kind v"
  by (cases kind) (auto simp: flag_Set_def has_kind_def dest: ParseInt_bounds split: if_splits)

lemma parseOne_rendered:
  assumes "flag_name_ok name" and "name \<noteq> []" and "gm_get (formal fs) name = Some kind" and "value_fits kind v"
  shows "parseOne fs (render_flag (name, v) # rest) = OneMore (fs\<lparr>actual := gm_put name v (actual fs)\<rparr>) rest"
proof -
  obtain c cs where name: "name = c # cs" using assms(2) by (cases name) auto
  have c: "c \<noteq> CHR ''-''" "c \<noteq> CHR ''=''" "\<forall>x \<in> set cs. x \<noteq> CHR ''=''"
    using assms(1) by (auto simp: flag_name_ok_def name)
  then have "takeWhile (\<lambda>x. x \<noteq> CHR ''='') (cs @ CHR ''='' # w) = cs"
    "dropWhile (\<lambda>x. x \<noteq> CHR ''='') (cs @ CHR ''='' # w) = CHR ''='' # w" for w
    by simp_all
  then have "parse_named fs (name @ ''='' @ render_value v) rest = OneMore (fs\<lparr>actual := gm_put name v (actual fs)\<rparr>) rest"
    using assms(3) flag_Set_render [OF assms(4)] by (simp add: parse_named_def name set_or_fail_def Let_def)
  then show ?thesis using c by (simp add: parseOne_def render_flag_def name)
qed

lemma parseOne_unknown:
  assumes "flag_name_ok name" and "name \<notin> {[], ''help'', ''h''}" and "gm_get (formal fs) name = None"
  shows "\<exists>msg. parseOne fs ((''--'' @ name) # rest) = FlagError msg"
proof -
  obtain c cs where name: "name = c # cs" using assms(2) by (cases name) simp_all
  have "\<forall>x \<in> set cs. x \<noteq> CHR ''=''" and c: "c \<noteq> CHR ''-''" "c \<noteq> CHR ''=''"
    using assms(1) by (auto simp: flag_name_ok_def name)
  then have "hd name # takeWhile (\<lambda>x. x \<noteq> CHR ''='') (tl name) = name"
    by (simp add: name)
  then have "parse_named fs name rest = FlagError (''flag provided but not defined: -'' @ name)"
    using assms(2,3) unfolding parse_named_def by simp
  moreover have "parseOne fs ((''--'' @ name) # rest) = parse_named fs name rest"
    using c unfolding parseOne_def name by simp
  ultimately show ?thesis by simp
qed

definition put_all :: "(string \<times> flag_value) list \<Rightarrow> (string, flag_value) gomap \<Rightarrow> (string, flag_value) gomap" where
  "put_all settings m = foldl (\<lambda>m nv. gm_put (fst nv) (snd nv) m) m settings"

lemma Parse_rendered:
  assumes "\<forall>(name, v) \<in> set settings. flag_name_ok name \<and> name \<noteq> [] \<and>
    (\<exists>kind. gm_get (formal fs) name = Some kind \<and> value_fits kind v)"
  shows "Parse fs (map render_flag settings) = Continues (fs\<lparr>actual := put_all settings (actual fs)\<rparr>)"
  using assms
proof (induction settings arbitrary: fs)
  case Nil
  then show ?case by (simp add: Parse.simps parseOne_def put_all_def)
next
  case (Cons nv settings)
  obtain name v where nv: "nv = (name, v)" by force
  let ?fs = "fs\<lparr>actual := gm_put name v (actual fs)\<rparr>"
  have "parseOne fs (map render_flag (nv # settings)) = OneMore ?fs (map render_flag settings)"
    using Cons.prems parseOne_rendered by (auto simp: nv)
  moreover have "Parse ?fs (map render_flag settings) = Continues (?fs\<lparr>actual := put_all settings (actual ?fs)\<rparr>)"
    using Cons.prems by (intro Cons.IH) (auto simp: nv)
  ultimately show ?case by (simp add: Parse.simps [of fs] put_all_def nv)
qed

lemma put_all_get:
  "distinct (map fst settings) \<Longrightarrow> gm_get (put_all settings m) =
     (\<lambda>name. case gm_get settings name of Some v \<Rightarrow> Some v | None \<Rightarrow> gm_get m name)"
proof (induction settings arbitrary: m)
  case (Cons nv settings)
  then have "gm_get (put_all settings (gm_put (fst nv) (snd nv) m)) =
     (\<lambda>name. case gm_get settings name of Some v \<Rightarrow> Some v | None \<Rightarrow> gm_get (gm_put (fst nv) (snd nv) m) name)"
    by simp
  moreover have "gm_get settings (fst nv) = None" using Cons.prems by (simp add: map_of_eq_None_iff)
  ultimately show ?case by (cases nv) (auto simp: put_all_def gomap_simps fun_eq_iff split: option.split)
qed (simp add: put_all_def fun_eq_iff)

text \<open>Registering declarations with new names.\<close>

lemma flag_Vars_new:
  assumes "distinct (map fst decls)" and "\<forall>d \<in> set decls. flag_name_ok (fst d) \<and> gm_get (formal fs) (fst d) = None"
  shows "\<exists>fs'. flag_Vars decls fs = Continues fs' \<and>
    gm_get (formal fs') = (\<lambda>name. case gm_get decls name of Some kd \<Rightarrow> Some (fst kd) | None \<Rightarrow> gm_get (formal fs) name) \<and>
    gm_get (actual fs') = (\<lambda>name. case gm_get decls name of Some kd \<Rightarrow> Some (snd kd) | None \<Rightarrow> gm_get (actual fs) name)"
  using assms
proof (induction decls arbitrary: fs)
  case (Cons d decls)
  let ?fs = "fs\<lparr>formal := gm_put (fst d) (fst (snd d)) (formal fs), actual := gm_put (fst d) (snd (snd d)) (actual fs)\<rparr>"
  have d: "flag_Var (fst d) (fst (snd d)) (snd (snd d)) fs = Continues ?fs"
    using Cons.prems by (simp add: flag_Var_def)
  have new: "gm_get decls (fst d) = None" using Cons.prems(1) by (simp add: map_of_eq_None_iff)
  have "\<forall>e \<in> set decls. flag_name_ok (fst e) \<and> gm_get (formal ?fs) (fst e) = None"
    using Cons.prems by (auto simp: gomap_simps image_iff)
  with Cons.IH [of ?fs] Cons.prems(1) obtain fs' where fs': "flag_Vars decls ?fs = Continues fs'"
    "gm_get (formal fs') = (\<lambda>name. case gm_get decls name of Some kd \<Rightarrow> Some (fst kd) | None \<Rightarrow> gm_get (formal ?fs) name)"
    "gm_get (actual fs') = (\<lambda>name. case gm_get decls name of Some kd \<Rightarrow> Some (snd kd) | None \<Rightarrow> gm_get (actual ?fs) name)"
    by auto
  with d new show ?case
    by (cases d) (auto simp: gomap_simps fun_eq_iff split: option.split)
qed simp

section \<open>Every variable keeps the kind of its flag\<close>

definition flags_typed :: "FlagSet \<Rightarrow> bool" where
  "flags_typed fs \<longleftrightarrow>
     (\<forall>name kind. gm_get (formal fs) name = Some kind \<longrightarrow> (\<exists>v. gm_get (actual fs) name = Some v \<and> has_kind kind v))"

lemma parseOne_typed:
  assumes "parseOne fs args = OneMore fs' rest" and "flags_typed fs"
  shows "flags_typed fs' \<and> formal fs' = formal fs"
proof -
  have set: "flags_typed fs' \<and> formal fs' = formal fs"
    if "set_or_fail fs name kind s r = OneMore fs' rest" "gm_get (formal fs) name = Some kind" for name kind s r
    using that assms(2) flag_Set_kind [of kind s]
    by (auto simp: set_or_fail_def flags_typed_def gomap_simps split: option.splits)
  show ?thesis
    using assms(1)
    by (auto simp: parseOne_def parse_named_def Let_def dest!: set split: list.splits if_splits option.splits)
qed

lemma Parse_typed: "Parse fs args = Continues fs' \<Longrightarrow> flags_typed fs \<Longrightarrow> flags_typed fs' \<and> formal fs' = formal fs"
proof (induction fs args rule: Parse.induct)
  case (1 fs args)
  show ?case
  proof (cases "parseOne fs args")
    case (OneMore fs1 rest)
    then show ?thesis
      using 1 parseOne_typed [OF OneMore] by (simp add: Parse.simps [of fs])
  qed (use 1 in \<open>simp_all add: Parse.simps [of fs]\<close>)
qed

text \<open>
  A program's own declarations next to those of the packages it imports: registered first
  (\<open>before\<close>) or later (\<open>after\<close>). The declarations agree if no name clashes and every initial value
  has the kind of its flag; then registering them does not panic.
\<close>

definition decls_ok :: "flag_decl list \<Rightarrow> bool" where
  "decls_ok decls \<longleftrightarrow> distinct (map fst decls) \<and>
     (\<forall>d \<in> set decls. flag_name_ok (fst d) \<and> has_kind (fst (snd d)) (snd (snd d)))"

lemma register_ok:
  assumes "decls_ok decls"
  obtains fs where "flag_Vars decls NewFlagSet = Continues fs" and "flags_typed fs"
    and "gm_get (formal fs) = map_option fst \<circ> gm_get decls"
    and "gm_get (actual fs) = map_option snd \<circ> gm_get decls"
proof -
  have none: "gm_get (formal NewFlagSet) name = None" "gm_get (actual NewFlagSet) name = None" for name
    by (simp_all add: NewFlagSet_def)
  have "\<exists>fs. flag_Vars decls NewFlagSet = Continues fs \<and>
      gm_get (formal fs) = map_option fst \<circ> gm_get decls \<and> gm_get (actual fs) = map_option snd \<circ> gm_get decls"
    using flag_Vars_new [of decls NewFlagSet] assms by (simp add: decls_ok_def none comp_def map_option_case cong: option.case_cong)
  then obtain fs where fs: "flag_Vars decls NewFlagSet = Continues fs"
    "gm_get (formal fs) = map_option fst \<circ> gm_get decls" "gm_get (actual fs) = map_option snd \<circ> gm_get decls"
    by blast
  moreover have "flags_typed fs"
    using assms by (fastforce simp: flags_typed_def fs decls_ok_def dest: map_of_SomeD)
  ultimately show ?thesis using that by blast
qed

text \<open>The values of the variables that the flags are bound to.\<close>

definition flag_str :: "FlagSet \<Rightarrow> string \<Rightarrow> string" where
  "flag_str fs name = (case gm_get (actual fs) name of Some (StrV s) \<Rightarrow> s | _ \<Rightarrow> [])"

definition flag_bool :: "FlagSet \<Rightarrow> string \<Rightarrow> bool" where
  "flag_bool fs name = (case gm_get (actual fs) name of Some (BoolV b) \<Rightarrow> b | _ \<Rightarrow> False)"

definition flag_int :: "FlagSet \<Rightarrow> string \<Rightarrow> int" where
  "flag_int fs name = (case gm_get (actual fs) name of Some (IntV i) \<Rightarrow> i | _ \<Rightarrow> 0)"

lemma flag_int_bounds:
  assumes "Parse fs args = Continues fs'" and "flags_typed fs" and "gm_get (formal fs) name = Some IntFlag"
  shows "- (2 ^ 63) \<le> flag_int fs' name \<and> flag_int fs' name < 2 ^ 63"
proof -
  obtain v where "gm_get (actual fs') name = Some v" "has_kind IntFlag v"
    using Parse_typed [OF assms(1,2)] assms(3) unfolding flags_typed_def by metis
  then show ?thesis by (cases v) (simp_all add: has_kind_def flag_int_def)
qed

lemma decl_get: "decls_ok decls \<Longrightarrow> (name, decl) \<in> set decls \<Longrightarrow> gm_get decls name = Some decl"
  by (auto simp: decls_ok_def intro: map_of_is_SomeI)

text \<open>A command line that sets some declared flags, each once, gives them these values.\<close>

lemma Parse_declared:
  assumes "decls_ok decls" and "gm_get (formal fs) = map_option fst \<circ> gm_get decls"
    and "distinct (map fst settings)"
    and "\<forall>(name, v) \<in> set settings. name \<noteq> [] \<and> (\<exists>kind initial. (name, kind, initial) \<in> set decls \<and> value_fits kind v)"
  shows "\<exists>fs'. Parse fs (map render_flag settings) = Continues fs' \<and>
    (\<forall>(name, v) \<in> set settings. gm_get (actual fs') name = Some v)"
proof -
  have "flag_name_ok name \<and> name \<noteq> [] \<and> (\<exists>kind. gm_get (formal fs) name = Some kind \<and> value_fits kind v)"
    if nv: "(name, v) \<in> set settings" for name v
  proof -
    obtain kind initial where "(name, kind, initial) \<in> set decls" "value_fits kind v" "name \<noteq> []"
      using assms(4) nv by fast
    with assms(1,2) show ?thesis by (auto simp: decl_get decls_ok_def)
  qed
  then have "Parse fs (map render_flag settings) = Continues (fs\<lparr>actual := put_all settings (actual fs)\<rparr>)"
    by (intro Parse_rendered) auto
  moreover have "gm_get (put_all settings (actual fs)) name = Some v" if "(name, v) \<in> set settings" for name v
    using that assms(3) by (simp add: put_all_get)
  ultimately show ?thesis by auto
qed

end
