(* ===== verification/Go_Slice.thy ===== *)
theory Go_Slice
  imports Go_Prelude
begin

text \<open>
  Go slices that share memory. A slice points into a backing array; \<^verbatim>\<open>append\<close> writes into that array
  as long as its capacity lasts and moves to a new array otherwise, so appending to two copies of
  one slice can make them overwrite each other. The store is the list of all backing arrays; a slot
  that was never written holds the zero value, \<open>None\<close>. Every slice here starts at the beginning of its array. \<open>growslice\<close>
  follows the Go runtime for elements of one machine word; the table of allocation sizes ends at
  128 bytes, as the slices of the program have at most two elements.
\<close>

type_synonym 'a arrays = "'a option list list"

record slice =
  backing :: nat
  slice_len :: nat
  slice_cap :: nat

function grow_loop :: "nat \<Rightarrow> nat \<Rightarrow> nat" where
  "grow_loop newLen newcap =
     (if newcap \<ge> newLen then newcap else grow_loop newLen (newcap + (newcap + 3 * 256) div 4))"
  by pat_completeness auto
termination
  by (relation "measure (\<lambda>(newLen, newcap). newLen - newcap)") auto

declare grow_loop.simps [simp del]

definition nextslicecap :: "nat \<Rightarrow> nat \<Rightarrow> nat" where
  "nextslicecap newLen oldCap =
     (if newLen > 2 * oldCap then newLen
      else if oldCap < 256 then 2 * oldCap
      else grow_loop newLen oldCap)"

definition size_classes :: "nat list" where
  "size_classes = [8, 16, 24, 32, 48, 64, 80, 96, 112, 128]"

definition roundupsize :: "nat \<Rightarrow> nat" where
  "roundupsize n = (case dropWhile (\<lambda>c. c < n) size_classes of c # _ \<Rightarrow> c | [] \<Rightarrow> n)"

definition growslice :: "nat \<Rightarrow> nat \<Rightarrow> nat" where
  "growslice newLen oldCap = roundupsize (8 * nextslicecap newLen oldCap) div 8"

text \<open>\<^verbatim>\<open>append(s, x)\<close>; a nil slice has length and capacity 0.\<close>

definition slice_append :: "'a \<Rightarrow> slice option \<Rightarrow> 'a arrays \<Rightarrow> slice option \<times> 'a arrays" where
  "slice_append x s mem =
     (let (old, len, cap) = (case s of
            None \<Rightarrow> ([], 0, 0)
          | Some sl \<Rightarrow> (mem ! backing sl, slice_len sl, slice_cap sl))
      in if len < cap
         then (map_option (\<lambda>sl. sl\<lparr>slice_len := len + 1\<rparr>) s,
               case s of Some sl \<Rightarrow> mem[backing sl := old[len := Some x]] | None \<Rightarrow> mem)
         else let newcap = growslice (len + 1) cap
              in (Some \<lparr>backing = length mem, slice_len = len + 1, slice_cap = newcap\<rparr>,
                  mem @ [take len old @ [Some x] @ replicate (newcap - (len + 1)) None]))"

definition slice_elems :: "'a arrays \<Rightarrow> slice option \<Rightarrow> 'a list" where
  "slice_elems mem s =
     (case s of None \<Rightarrow> [] | Some sl \<Rightarrow> map the (take (slice_len sl) (mem ! backing sl)))"

definition slice_ok :: "'a arrays \<Rightarrow> slice option \<Rightarrow> bool" where
  "slice_ok mem s \<longleftrightarrow>
     (case s of
        None \<Rightarrow> True
      | Some sl \<Rightarrow> backing sl < length mem \<and> slice_len sl \<le> slice_cap sl \<and> length (mem ! backing sl) = slice_cap sl)"

definition slice_full :: "slice option \<Rightarrow> bool" where
  "slice_full s \<longleftrightarrow> (case s of None \<Rightarrow> True | Some sl \<Rightarrow> slice_len sl = slice_cap sl)"

lemma grow_loop_ge: "newLen \<le> grow_loop newLen newcap"
  by (induction newLen newcap rule: grow_loop.induct) (simp add: grow_loop.simps)

lemma nextslicecap_ge: "newLen \<le> nextslicecap newLen oldCap"
  using grow_loop_ge by (auto simp: nextslicecap_def)

lemma roundupsize_ge: "n \<le> roundupsize n"
proof (cases "dropWhile (\<lambda>c. c < n) size_classes")
  case (Cons c cs)
  then have "\<not> c < n" by (metis hd_dropWhile list.distinct(1) list.sel(1))
  with Cons show ?thesis by (simp add: roundupsize_def)
next
  case Nil
  show ?thesis unfolding roundupsize_def Nil by simp
qed

lemma growslice_ge: "newLen \<le> growslice newLen oldCap"
proof -
  have "8 * newLen \<le> roundupsize (8 * nextslicecap newLen oldCap)"
    using nextslicecap_ge [of newLen oldCap] roundupsize_ge [of "8 * nextslicecap newLen oldCap"] by linarith
  then show ?thesis unfolding growslice_def by (simp add: less_eq_div_iff_mult_less_eq mult.commute)
qed

text \<open>The result of \<^verbatim>\<open>append\<close> has the old elements and the new one.\<close>

lemma slice_append_elems:
  assumes "slice_ok mem s" and "slice_append x s mem = (s', mem')"
  shows "slice_elems mem' s' = slice_elems mem s @ [x] \<and> slice_ok mem' s'"
proof -
  have cap: "len + 1 \<le> growslice (len + 1) cap" for len cap by (rule growslice_ge)
  show ?thesis
  proof (cases s)
    case None
    then show ?thesis
      using assms(2) cap [of 0 0] by (auto simp: slice_append_def Let_def slice_elems_def slice_ok_def nth_append)
  next
    case (Some sl)
    then have sl: "backing sl < length mem" "slice_len sl \<le> slice_cap sl" "length (mem ! backing sl) = slice_cap sl"
      using assms(1) by (simp_all add: slice_ok_def)
    show ?thesis
    proof (cases "slice_len sl < slice_cap sl")
      case True
      then show ?thesis
        using assms(2) sl Some
        by (auto simp: slice_append_def slice_elems_def slice_ok_def take_Suc_conv_app_nth)
    next
      case False
      then show ?thesis
        using assms(2) sl Some cap [of "slice_len sl" "slice_cap sl"]
        by (auto simp: slice_append_def Let_def slice_elems_def slice_ok_def nth_append)
    qed
  qed
qed

text \<open>
  Appending to a full slice leaves every other slice as it is; this is what keeps two slices that
  grew from one full slice apart.
\<close>

lemma slice_append_full:
  assumes "slice_full s" and "slice_ok mem t" and "slice_append x s mem = (s', mem')"
  shows "slice_elems mem' t = slice_elems mem t \<and> slice_ok mem' t"
proof -
  have "\<exists>new. mem' = mem @ [new]"
    using assms(1,3) by (cases s) (auto simp: slice_append_def slice_full_def Let_def)
  then show ?thesis
    using assms(2) by (auto simp: slice_elems_def slice_ok_def nth_append split: option.splits)
qed

lemma slice_append_nil_full:
  "slice_append x None mem = (s', mem') \<Longrightarrow> slice_full s'"
  by (auto simp: slice_append_def slice_full_def Let_def growslice_def nextslicecap_def roundupsize_def size_classes_def)

end
