(* ===== verification/Go_Http.thy ===== *)
theory Go_Http
  imports Go_Json
begin

text \<open>
  What the sources use of Go's \<^verbatim>\<open>net/http\<close>: requests, the response writer, \<^verbatim>\<open>http.Error\<close>, the JSON
  encoder on a response writer, and a \<^verbatim>\<open>ServeMux\<close> whose patterns are plain paths. A response writer
  sends status and headers once, at the first \<^verbatim>\<open>WriteHeader\<close> or \<^verbatim>\<open>Write\<close>; later calls of \<^verbatim>\<open>WriteHeader\<close>
  and later changes of the headers have no effect on what was sent. \<open>broken\<close> is the error with
  which every write fails when the client is gone. The mux cleans the path of a request before it looks for a
  handler and redirects where that changes the path; \<open>reqPath\<close> is the path after this.
\<close>

record Request =
  reqMethod :: string
  reqPath :: string
  reqContentType :: string
  reqBody :: "string option option"

record ResponseWriter =
  headers :: "(string, string) gomap"
  wire :: "(nat \<times> (string, string) gomap) option"
  out :: string
  broken :: "string option"

type_synonym handler = "Request \<Rightarrow> ResponseWriter \<Rightarrow> ResponseWriter"

definition fresh_writer :: "string option \<Rightarrow> ResponseWriter" where
  "fresh_writer b = \<lparr>headers = [], wire = None, out = [], broken = b\<rparr>"

definition Header_Set :: "string \<Rightarrow> string \<Rightarrow> ResponseWriter \<Rightarrow> ResponseWriter" where
  "Header_Set k v w = w\<lparr>headers := gm_put k v (headers w)\<rparr>"

definition Header_Del :: "string \<Rightarrow> ResponseWriter \<Rightarrow> ResponseWriter" where
  "Header_Del k w = w\<lparr>headers := gm_del k (headers w)\<rparr>"

definition WriteHeader :: "nat \<Rightarrow> ResponseWriter \<Rightarrow> ResponseWriter" where
  "WriteHeader code w =
     (case wire w of Some _ \<Rightarrow> w | None \<Rightarrow> w\<lparr>wire := Some (code, headers w)\<rparr>)"

definition StatusOK :: nat where "StatusOK = 200"
definition StatusBadRequest :: nat where "StatusBadRequest = 400"
definition StatusNotFound :: nat where "StatusNotFound = 404"
definition StatusMethodNotAllowed :: nat where "StatusMethodNotAllowed = 405"
definition StatusInternalServerError :: nat where "StatusInternalServerError = 500"

text \<open>\<^verbatim>\<open>Write\<close>: its error, if any, and the writer afterwards.\<close>

definition Write :: "string \<Rightarrow> ResponseWriter \<Rightarrow> string option \<times> ResponseWriter" where
  "Write bs w =
     (let w1 = WriteHeader StatusOK w
      in (broken w1, if broken w1 = None then w1\<lparr>out := out w1 @ bs\<rparr> else w1))"

definition newline :: string where
  "newline = [char_of (10 :: nat)]"

definition http_Error :: "string \<Rightarrow> nat \<Rightarrow> ResponseWriter \<Rightarrow> ResponseWriter" where
  "http_Error msg code w =
     (let w1 = Header_Del ''Content-Length'' w;
          w2 = Header_Set ''Content-Type'' ''text/plain; charset=utf-8'' w1;
          w3 = Header_Set ''X-Content-Type-Options'' ''nosniff'' w2;
          w4 = WriteHeader code w3
      in snd (Write (msg @ newline) w4))"

text \<open>\<^verbatim>\<open>json.NewEncoder(w).Encode(v)\<close>: the text and a newline in one write.\<close>

definition Encode :: "json \<Rightarrow> ResponseWriter \<Rightarrow> string option \<times> ResponseWriter" where
  "Encode j w = Write (encode j @ newline) w"

text \<open>A \<^verbatim>\<open>ServeMux\<close>: the registered patterns with their handlers, none of which ends in a slash.\<close>

definition mux_serve :: "(string \<times> handler) list \<Rightarrow> handler" where
  "mux_serve mux r w =
     (case map_of mux (reqPath r) of
        Some h \<Rightarrow> h r w
      | None \<Rightarrow> http_Error ''404 page not found'' StatusNotFound w)"

text \<open>How \<^verbatim>\<open>ListenAndServe\<close> returns: after \<^verbatim>\<open>Shutdown\<close>, or with another error.\<close>

datatype listen_result = ServerClosed | ListenFailed string

section \<open>What a client sees\<close>

lemma WriteHeader_simps [simp]:
  "broken (WriteHeader c w) = broken w" "out (WriteHeader c w) = out w"
  "headers (WriteHeader c w) = headers w"
  "wire (WriteHeader c w) = (case wire w of Some x \<Rightarrow> Some x | None \<Rightarrow> Some (c, headers w))"
  by (simp_all add: WriteHeader_def split: option.split)

lemma Header_simps [simp]:
  "wire (Header_Set k v w) = wire w" "out (Header_Set k v w) = out w" "broken (Header_Set k v w) = broken w"
  "headers (Header_Set k v w) = gm_put k v (headers w)"
  "wire (Header_Del k w) = wire w" "out (Header_Del k w) = out w" "broken (Header_Del k w) = broken w"
  "headers (Header_Del k w) = gm_del k (headers w)"
  by (simp_all add: Header_Set_def Header_Del_def)

lemma Write_simps [simp]:
  "fst (Write bs w) = broken w" "broken (snd (Write bs w)) = broken w"
  "wire (snd (Write bs w)) = (case wire w of Some x \<Rightarrow> Some x | None \<Rightarrow> Some (StatusOK, headers w))"
  "out (snd (Write bs w)) = (if broken w = None then out w @ bs else out w)"
  "headers (snd (Write bs w)) = headers w"
  by (simp_all add: Write_def Let_def)

lemma Encode_simps [simp]:
  "fst (Encode j w) = broken w" "broken (snd (Encode j w)) = broken w"
  "wire (snd (Encode j w)) = (case wire w of Some x \<Rightarrow> Some x | None \<Rightarrow> Some (StatusOK, headers w))"
  "out (snd (Encode j w)) = (if broken w = None then out w @ encode j @ newline else out w)"
  "headers (snd (Encode j w)) = headers w"
  by (simp_all add: Encode_def)

lemma http_Error_simps [simp]:
  "broken (http_Error msg c w) = broken w"
  "out (http_Error msg c w) = (if broken w = None then out w @ msg @ newline else out w)"
  "wire (http_Error msg c w) =
     (case wire w of
        Some x \<Rightarrow> Some x
      | None \<Rightarrow> Some (c, gm_put ''X-Content-Type-Options'' ''nosniff''
          (gm_put ''Content-Type'' ''text/plain; charset=utf-8'' (gm_del ''Content-Length'' (headers w)))))"
  by (simp_all add: http_Error_def Let_def split: option.split)

definition status_of :: "ResponseWriter \<Rightarrow> nat option" where
  "status_of w = map_option fst (wire w)"

definition header_of :: "ResponseWriter \<Rightarrow> string \<Rightarrow> string option" where
  "header_of w k = (case wire w of None \<Rightarrow> None | Some (_, h) \<Rightarrow> gm_get h k)"

lemma fresh_writer_simps [simp]:
  "wire (fresh_writer b) = None" "out (fresh_writer b) = []" "broken (fresh_writer b) = b"
  "headers (fresh_writer b) = []"
  by (simp_all add: fresh_writer_def)

end
