(* ===== verification/Api_Server.thy ===== *)
theory Api_Server
  imports Go_Http Cache_Properties
begin

text \<open>
  \<^verbatim>\<open>controller/internal/controller/api_server.go\<close>: the HTTP server that hands the blocklist to the
  node agents. The cache it points to is an argument of the handlers; no handler changes it. Of
  \<open>Start\<close> the model has the outcome: it waits for the context, shuts the server down and returns
  the error of the shutdown; the error of \<^verbatim>\<open>ListenAndServe\<close>, which runs in its own goroutine, is only
  logged.
\<close>

record BlocklistResponse =
  Blocklist :: "BlocklistEntry list"

section \<open>Operations\<close>

definition json_of_entry :: "BlocklistEntry \<Rightarrow> json" where
  "json_of_entry e = JObj [(''ip'', JStr (entryIP e)), (''domains'', JArr (map JStr (Domains e)))]"

definition json_of_response :: "BlocklistResponse \<Rightarrow> json" where
  "json_of_response r = JObj [(''blocklist'', JArr (map json_of_entry (Blocklist r)))]"

definition handleGetBlocklist :: "BlocklistCache \<Rightarrow> handler" where
  "handleGetBlocklist bc r w =
     (if reqMethod r \<noteq> ''GET''
      then http_Error ''Method not allowed'' StatusMethodNotAllowed w
      else let blocklist = GetBlocklist bc;
               response = \<lparr>Blocklist = blocklist\<rparr>;
               w1 = Header_Set ''Content-Type'' ''application/json'' w;
               w2 = WriteHeader StatusOK w1;
               (err, w3) = Encode (json_of_response response) w2
           in if err \<noteq> None
              then http_Error ''Failed to encode response'' StatusInternalServerError w3
              else w3)"

text \<open>The encoder writes the keys of the map in order.\<close>

definition handleHealthz :: "BlocklistCache \<Rightarrow> handler" where
  "handleHealthz bc r w =
     (let w1 = Header_Set ''Content-Type'' ''application/json'' w;
          w2 = WriteHeader StatusOK w1
      in snd (Encode (JObj [(''blocklist_entries'', JNum (int (BlocklistCache_Size bc))),
                            (''status'', JStr ''ok'')]) w2))"

record http_Server =
  Addr :: string
  Handler :: "BlocklistCache \<Rightarrow> handler"
  ReadTimeout :: nat
  WriteTimeout :: nat
  IdleTimeout :: nat

definition NewAPIServer :: "string \<Rightarrow> http_Server" where
  "NewAPIServer addr =
     \<lparr>Addr = addr,
      Handler = (\<lambda>bc. mux_serve [(''/api/policies'', handleGetBlocklist bc), (''/healthz'', handleHealthz bc)]),
      ReadTimeout = 10, WriteTimeout = 10, IdleTimeout = 60\<rparr>"

text \<open>
  \<open>Start\<close> and the goroutine it starts, driven by what happens to them: \<^verbatim>\<open>ListenAndServe\<close> returns in the
  goroutine, the context is cancelled, \<^verbatim>\<open>Shutdown\<close> returns. An event that the code is not waiting for
  has no effect.
\<close>

datatype api_event = ListenReturned listen_result | ContextCancelled | ShutdownReturned "string option"

datatype start_phase = WaitingForContext | ShuttingDown | StartReturned "string option"

record ApiRun =
  startPhase :: start_phase
  serving :: bool
  apiLog :: "string list"

definition api_started :: ApiRun where
  "api_started = \<lparr>startPhase = WaitingForContext, serving = True, apiLog = [''Starting API server'']\<rparr>"

fun api_step :: "api_event \<Rightarrow> ApiRun \<Rightarrow> ApiRun" where
  "api_step (ListenReturned result) run =
     (if \<not> serving run then run
      else case result of
             ListenFailed err \<Rightarrow> run\<lparr>serving := False, apiLog := apiLog run @ [''API server failed'']\<rparr>
           | ServerClosed \<Rightarrow> run\<lparr>serving := False\<rparr>)"
| "api_step ContextCancelled run =
     (if startPhase run \<noteq> WaitingForContext then run
      else run\<lparr>startPhase := ShuttingDown, apiLog := apiLog run @ [''Shutting down API server'']\<rparr>)"
| "api_step (ShutdownReturned err) run =
     (if startPhase run \<noteq> ShuttingDown then run
      else (case err of
              Some e \<Rightarrow> run\<lparr>startPhase := StartReturned (Some e), apiLog := apiLog run @ [''API server shutdown failed'']\<rparr>
            | None \<Rightarrow> run\<lparr>startPhase := StartReturned None\<rparr>))"

definition APIServer_Start :: "api_event list \<Rightarrow> ApiRun" where
  "APIServer_Start evs = fold api_step evs api_started"

section \<open>Reading a response\<close>

text \<open>How a client takes the response apart; the inverse of the two encoding functions.\<close>

fun strings_of :: "json list \<Rightarrow> string list option" where
  "strings_of [] = Some []"
| "strings_of (JStr s # js) = map_option (Cons s) (strings_of js)"
| "strings_of _ = None"

definition entry_of_json :: "json \<Rightarrow> BlocklistEntry option" where
  "entry_of_json j =
     (case j of
        JObj kvs \<Rightarrow>
          (case (map_of kvs ''ip'', map_of kvs ''domains'') of
             (Some (JStr ip), Some (JArr ds)) \<Rightarrow>
               map_option (\<lambda>domains. \<lparr>entryIP = ip, Domains = domains\<rparr>) (strings_of ds)
           | _ \<Rightarrow> None)
      | _ \<Rightarrow> None)"

fun entries_of :: "json list \<Rightarrow> BlocklistEntry list option" where
  "entries_of [] = Some []"
| "entries_of (j # js) =
     (case (entry_of_json j, entries_of js) of
        (Some e, Some es) \<Rightarrow> Some (e # es)
      | _ \<Rightarrow> None)"

definition decode_response :: "string \<Rightarrow> BlocklistEntry list option" where
  "decode_response text =
     (case parse text of
        Some (JObj kvs) \<Rightarrow> (case map_of kvs ''blocklist'' of Some (JArr js) \<Rightarrow> entries_of js | _ \<Rightarrow> None)
      | _ \<Rightarrow> None)"

definition utf8_cache :: "BlocklistCache \<Rightarrow> bool" where
  "utf8_cache bc \<longleftrightarrow>
     (\<forall>e \<in> set (GetBlocklist bc). valid_utf8 (entryIP e) \<and> (\<forall>d \<in> set (Domains e). valid_utf8 d))"

lemma strings_of_map: "strings_of (map JStr ss) = Some ss"
  by (induction ss) simp_all

lemma entry_of_json_of_entry: "entry_of_json (json_of_entry e) = Some e"
  by (simp add: entry_of_json_def json_of_entry_def strings_of_map)

lemma entries_of_map: "entries_of (map json_of_entry es) = Some es"
  by (induction es) (simp_all add: entry_of_json_of_entry)

lemma elems_ok_map: "(\<forall>x \<in> set xs. json_ok (f x)) \<Longrightarrow> elems_ok (map f xs)"
  by (induction xs) simp_all

lemma valid_keys [simp]:
  "valid_utf8 ''ip''" "valid_utf8 ''domains''" "valid_utf8 ''blocklist''"
  by (simp_all add: decode_rune_def Let_def case_prod_unfold rune_error_def)

lemma json_ok_response:
  assumes "utf8_cache bc"
  shows "json_ok (json_of_response \<lparr>Blocklist = GetBlocklist bc\<rparr>)"
proof -
  have "json_ok (json_of_entry e)" if "e \<in> set (GetBlocklist bc)" for e
    using assms that
    by (auto simp: utf8_cache_def json_of_entry_def simp del: valid_utf8.simps intro!: elems_ok_map)
  then show ?thesis
    by (simp add: json_of_response_def elems_ok_map del: valid_utf8.simps)
qed

lemma decode_response_encode:
  assumes "utf8_cache bc"
  shows "decode_response (encode (json_of_response \<lparr>Blocklist = GetBlocklist bc\<rparr>) @ newline) = Some (GetBlocklist bc)"
  using parse_encode [OF json_ok_response [OF assms], of newline]
  by (simp add: decode_response_def newline_def) (simp add: json_of_response_def entries_of_map)

section \<open>Properties\<close>

abbreviation serve :: "BlocklistCache \<Rightarrow> Request \<Rightarrow> string option \<Rightarrow> ResponseWriter" where
  "serve bc r gone \<equiv> Handler (NewAPIServer []) bc r (fresh_writer gone)"

lemmas serve_defs =
  NewAPIServer_def mux_serve_def handleGetBlocklist_def handleHealthz_def case_prod_unfold Let_def
  status_of_def header_of_def

lemma serve_get:
  assumes "reqMethod r = ''GET''" and "reqPath r = ''/api/policies''" and "utf8_cache bc"
  shows "status_of (serve bc r None) = Some 200"
    and "header_of (serve bc r None) ''Content-Type'' = Some ''application/json''"
    and "decode_response (out (serve bc r None)) = Some (GetBlocklist bc)"
  using assms by (simp_all add: serve_defs StatusOK_def decode_response_encode gomap_simps)

text \<open>
  C26: the API delivers the blocklist unaltered: a GET of \<open>/api/policies\<close> by a client that is still
  there is answered with status 200 and content type application/json, and the JSON text of the
  body decodes to exactly the list of entries that the cache serves, in the same order.
\<close>

theorem GET_policies_delivers_blocklist:
  assumes "reqMethod r = ''GET''" and "reqPath r = ''/api/policies''" and "utf8_cache bc"
  shows "status_of (serve bc r None) = Some 200 \<and>
    header_of (serve bc r None) ''Content-Type'' = Some ''application/json'' \<and>
    decode_response (out (serve bc r None)) = Some (GetBlocklist bc)"
  using serve_get [OF assms] by blast

definition get_policies :: Request where
  "get_policies = \<lparr>reqMethod = ''GET'', reqPath = ''/api/policies'', reqContentType = [], reqBody = None\<rparr>"

theorem GET_policies_delivers_blocklist_witness:
  "decode_response (out (serve sample_cache get_policies None)) =
     Some [\<lparr>entryIP = ''10.0.0.5'', Domains = [''a.ads.com'', ''b.ads.com'']\<rparr>]"
proof -
  have "entries sample_cache = [(''10.0.0.5'', \<lparr>entryIP = ''10.0.0.5'', Domains = [''a.ads.com'', ''b.ads.com'']\<rparr>)]"
    by (simp add: sample_cache_def RecalculateAll_def NewBlocklistCache_def sample_pods_eq PodIndex_GetAll_def
        recalculatePodInternal_def sample_policies_eq PolicyIndex_GetAll_def deepcopy_policy_id)
      (simp add: pod_frontend_def sample_policy_def LabelsContainAll_def Let_def)
  then have list: "GetBlocklist sample_cache = [\<lparr>entryIP = ''10.0.0.5'', Domains = [''a.ads.com'', ''b.ads.com'']\<rparr>]"
    by (simp add: GetBlocklist_eq)
  have "utf8_cache sample_cache"
    by (simp add: utf8_cache_def list decode_rune_def Let_def case_prod_unfold rune_error_def)
  then show ?thesis
    using GET_policies_delivers_blocklist [of get_policies sample_cache] list by (simp add: get_policies_def)
qed



text \<open>The events after which \<open>Start\<close> has come to a phase.\<close>

lemma start_phases:
  "startPhase (fold api_step evs run) =
     (case startPhase run of
        WaitingForContext \<Rightarrow>
          (case dropWhile (\<lambda>e. e \<noteq> ContextCancelled) evs of
             [] \<Rightarrow> WaitingForContext
           | _ # rest \<Rightarrow>
               (case dropWhile (\<lambda>e. \<forall>r. e \<noteq> ShutdownReturned r) rest of ShutdownReturned r # _ \<Rightarrow> StartReturned r | _ \<Rightarrow> ShuttingDown))
      | ShuttingDown \<Rightarrow>
          (case dropWhile (\<lambda>e. \<forall>r. e \<noteq> ShutdownReturned r) evs of ShutdownReturned r # _ \<Rightarrow> StartReturned r | _ \<Rightarrow> ShuttingDown)
      | StartReturned r \<Rightarrow> StartReturned r)"
proof (induction evs arbitrary: run)
  case Nil
  then show ?case by (simp split: start_phase.split)
next
  case (Cons e evs)
  show ?case
    by (cases e; cases "startPhase run") (auto simp: Cons split: listen_result.split option.split)
qed

lemma dropWhile_Cons_iff:
  "dropWhile P xs = y # ys \<longleftrightarrow> (\<exists>b. xs = b @ y # ys \<and> (\<forall>x \<in> set b. P x) \<and> \<not> P y)"
proof (induction xs)
  case (Cons x xs)
  then show ?case by (auto simp: Cons_eq_append_conv)
qed simp

lemma start_returned_iff:
  "startPhase (APIServer_Start evs) = StartReturned r \<longleftrightarrow>
     (\<exists>rest after. dropWhile (\<lambda>e. e \<noteq> ContextCancelled) evs = ContextCancelled # rest \<and>
        dropWhile (\<lambda>e. \<forall>r. e \<noteq> ShutdownReturned r) rest = ShutdownReturned r # after)"
proof (cases "dropWhile (\<lambda>e. e \<noteq> ContextCancelled) evs")
  case Nil
  then show ?thesis by (simp add: APIServer_Start_def start_phases api_started_def del: dropWhile_eq_Nil_conv)
next
  case (Cons e rest)
  then have "e = ContextCancelled" by (auto simp: dropWhile_Cons_iff)
  with Cons show ?thesis
    by (auto simp: APIServer_Start_def start_phases api_started_def simp del: dropWhile_eq_Nil_conv
        split: list.split api_event.split)
qed

text \<open>
  C32: the API server runs until its context is cancelled, whatever happens to the listener. Until then
  \<open>Start\<close> does not return: a listener that fails, for instance because its port is in use, is only logged,
  nothing serves any more, and the manager is not told. \<open>Start\<close> returns exactly when \<^verbatim>\<open>Shutdown\<close> returns
  after the cancellation, with the result of \<^verbatim>\<open>Shutdown\<close>.
\<close>

theorem api_server_waits_for_its_context:
  "(ContextCancelled \<notin> set evs \<longrightarrow> startPhase (APIServer_Start evs) = WaitingForContext \<and>
      (serving (APIServer_Start evs) \<longleftrightarrow> (\<forall>result. ListenReturned result \<notin> set evs))) \<and>
   (startPhase (APIServer_Start evs) = StartReturned r \<longleftrightarrow>
      (\<exists>before between after. evs = before @ ContextCancelled # between @ ShutdownReturned r # after \<and>
         ContextCancelled \<notin> set before \<and> (\<forall>r'. ShutdownReturned r' \<notin> set between)))"
proof (intro conjI impI)
  assume "ContextCancelled \<notin> set evs"
  then have "dropWhile (\<lambda>e. e \<noteq> ContextCancelled) evs = []" by auto
  then show "startPhase (APIServer_Start evs) = WaitingForContext"
    by (simp add: APIServer_Start_def start_phases api_started_def del: dropWhile_eq_Nil_conv)
  have "serving (fold api_step evs run) \<longleftrightarrow> serving run \<and> (\<forall>result. ListenReturned result \<notin> set evs)" for run
  proof (induction evs arbitrary: run)
    case (Cons e evs)
    then show ?case by (cases e) (auto split: listen_result.split option.split)
  qed simp
  then show "serving (APIServer_Start evs) \<longleftrightarrow> (\<forall>result. ListenReturned result \<notin> set evs)"
    by (simp add: APIServer_Start_def api_started_def)
next
  show "startPhase (APIServer_Start evs) = StartReturned r \<longleftrightarrow>
      (\<exists>before between after. evs = before @ ContextCancelled # between @ ShutdownReturned r # after \<and>
         ContextCancelled \<notin> set before \<and> (\<forall>r'. ShutdownReturned r' \<notin> set between))"
    unfolding start_returned_iff dropWhile_Cons_iff by blast
qed

theorem api_server_waits_for_its_context_witness:
  "startPhase (APIServer_Start [ListenReturned (ListenFailed ''address in use'')]) = WaitingForContext \<and>
   \<not> serving (APIServer_Start [ListenReturned (ListenFailed ''address in use'')])"
  using api_server_waits_for_its_context [of "[ListenReturned (ListenFailed ''address in use'')]"] by auto

end
