(* ===== verification/Controller_Main.thy ===== *)
theory Controller_Main
  imports Go_Flag Go_Slice Api_Server Controller_System
begin

text \<open>
  \<^verbatim>\<open>controller/cmd/main.go\<close> and the two \<^verbatim>\<open>SetupWithManager\<close> methods: how the controller is put together.
  A \<open>boot\<close> program runs on a state with the calls made so far on the manager and its libraries, the
  backing arrays of the TLS option slices and the objects allocated; it may end early. Which calls
  fail is a parameter that may depend on the calls made before, as are the flags that imported
  packages register. Each failing call ends the program with code 1, as every error branch of \<^verbatim>\<open>main\<close>
  does. The pointers that the code hands to the reconcilers and the API server are positions in
  the list of objects.
\<close>

section \<open>Flags\<close>

record ControllerFlags =
  metricsAddr :: string
  probeAddr :: string
  apiAddr :: string
  enableLeaderElection :: bool
  secureMetrics :: bool
  webhookCertPath :: string
  webhookCertName :: string
  webhookCertKey :: string
  metricsCertPath :: string
  metricsCertName :: string
  metricsCertKey :: string
  enableHTTP2 :: bool

definition controller_decls :: "flag_decl list" where
  "controller_decls =
     [(''metrics-bind-address'', StringFlag, StrV ''0''),
      (''health-probe-bind-address'', StringFlag, StrV '':8081''),
      (''api-bind-address'', StringFlag, StrV '':5959''),
      (''leader-elect'', BoolFlag, BoolV False),
      (''metrics-secure'', BoolFlag, BoolV True),
      (''webhook-cert-path'', StringFlag, StrV []),
      (''webhook-cert-name'', StringFlag, StrV ''tls.crt''),
      (''webhook-cert-key'', StringFlag, StrV ''tls.key''),
      (''metrics-cert-path'', StringFlag, StrV []),
      (''metrics-cert-name'', StringFlag, StrV ''tls.crt''),
      (''metrics-cert-key'', StringFlag, StrV ''tls.key''),
      (''enable-http2'', BoolFlag, BoolV False)]"

definition flags_of :: "FlagSet \<Rightarrow> ControllerFlags" where
  "flags_of fs =
     \<lparr>metricsAddr = flag_str fs ''metrics-bind-address'', probeAddr = flag_str fs ''health-probe-bind-address'',
      apiAddr = flag_str fs ''api-bind-address'', enableLeaderElection = flag_bool fs ''leader-elect'',
      secureMetrics = flag_bool fs ''metrics-secure'',
      webhookCertPath = flag_str fs ''webhook-cert-path'', webhookCertName = flag_str fs ''webhook-cert-name'',
      webhookCertKey = flag_str fs ''webhook-cert-key'',
      metricsCertPath = flag_str fs ''metrics-cert-path'', metricsCertName = flag_str fs ''metrics-cert-name'',
      metricsCertKey = flag_str fs ''metrics-cert-key'', enableHTTP2 = flag_bool fs ''enable-http2''\<rparr>"

text \<open>The imported packages register some flags at their initialisation, the logger later in \<^verbatim>\<open>main\<close>.\<close>

definition controller_flags :: "flag_decl list \<Rightarrow> flag_decl list \<Rightarrow> string list \<Rightarrow> ControllerFlags process" where
  "controller_flags imported zapFlags args =
     and_then (flag_Vars (imported @ controller_decls @ zapFlags) NewFlagSet) (\<lambda>fs.
     and_then (Parse fs args) (\<lambda>fs'. Continues (flags_of fs')))"

section \<open>File names\<close>

text \<open>\<^verbatim>\<open>path/filepath\<close> on Unix: \<^verbatim>\<open>Clean\<close> works on the parts between slashes, with a stack of kept parts.\<close>

function split_slash :: "string \<Rightarrow> string list" where
  "split_slash s =
     (if CHR ''/'' \<in> set s
      then takeWhile (\<lambda>c. c \<noteq> CHR ''/'') s # split_slash (tl (dropWhile (\<lambda>c. c \<noteq> CHR ''/'') s))
      else [s])"
  by pat_completeness auto
termination
proof (relation "measure length")
  fix s :: string
  assume "CHR ''/'' \<in> set s"
  then have "dropWhile (\<lambda>c. c \<noteq> CHR ''/'') s \<noteq> []" by auto
  then have "length (tl (dropWhile (\<lambda>c. c \<noteq> CHR ''/'') s)) < length (dropWhile (\<lambda>c. c \<noteq> CHR ''/'') s)"
    by simp
  also have "\<dots> \<le> length s" by (rule length_dropWhile_le)
  finally show "(tl (dropWhile (\<lambda>c. c \<noteq> CHR ''/'') s), s) \<in> measure length" by simp
qed simp

declare split_slash.simps [simp del]

fun join_slash :: "string list \<Rightarrow> string" where
  "join_slash [] = []"
| "join_slash [p] = p"
| "join_slash (p # ps) = p @ ''/'' @ join_slash ps"

fun clean_parts :: "bool \<Rightarrow> string list \<Rightarrow> string list \<Rightarrow> string list" where
  "clean_parts rooted kept [] = rev kept"
| "clean_parts rooted kept (p # ps) =
     (if p = [] \<or> p = ''.'' then clean_parts rooted kept ps
      else if p = ''..''
      then (case kept of
              [] \<Rightarrow> clean_parts rooted (if rooted then [] else [''..'']) ps
            | k # ks \<Rightarrow> if k = ''..'' then clean_parts rooted (''..'' # kept) ps
                        else clean_parts rooted ks ps)
      else clean_parts rooted (p # kept) ps)"

definition filepath_Clean :: "string \<Rightarrow> string" where
  "filepath_Clean path =
     (if path = [] then ''.''
      else let rooted = (hd path = CHR ''/'');
               body = join_slash (clean_parts rooted [] (split_slash path))
           in if rooted then CHR ''/'' # body else if body = [] then ''.'' else body)"

definition filepath_Join :: "string \<Rightarrow> string \<Rightarrow> string" where
  "filepath_Join dir file =
     (if dir \<noteq> [] then filepath_Clean (dir @ ''/'' @ file)
      else if file \<noteq> [] then filepath_Clean file else [])"

section \<open>TLS options\<close>

text \<open>The functions that \<^verbatim>\<open>main\<close> puts into the option slices, and the part of \<^verbatim>\<open>tls.Config\<close> they change.\<close>

datatype tls_opt = DisableHTTP2 | UseCertWatcher string

record tls_config =
  NextProtos :: "string list"
  GetCertificate :: "string option"

fun apply_opt :: "tls_opt \<Rightarrow> tls_config \<Rightarrow> tls_config" where
  "apply_opt DisableHTTP2 c = c\<lparr>NextProtos := [''http/1.1'']\<rparr>"
| "apply_opt (UseCertWatcher watcher) c = c\<lparr>GetCertificate := Some watcher\<rparr>"

section \<open>Programs that start the controller\<close>

datatype obj = PodIndexObj PodIndex | PolicyIndexObj PolicyIndex
  | CacheObj nat nat "(string, BlocklistEntry) gomap"

text \<open>What \<^verbatim>\<open>NewControllerManagedBy(mgr)...Complete(r)\<close> registers, with the pointers of the reconciler.\<close>

record Registration =
  regFor :: string
  regFilter :: "(pod_event \<Rightarrow> bool) option"
  regName :: string
  regRecorder :: "string option"
  regIndex :: nat
  regCache :: nat

record ManagerOptions =
  mgrMetricsAddr :: string
  mgrSecureServing :: bool
  mgrAuthFilter :: bool
  mgrMetricsTLS :: "slice option"
  mgrWebhookTLS :: "slice option"
  mgrProbeAddr :: string
  mgrLeaderElection :: bool
  mgrLeaderElectionID :: string

datatype call =
    NewCertWatcher string string
  | GetConfigOrDie
  | NewManager ManagerOptions
  | CompleteController Registration
  | AddAPIServer http_Server nat
  | AddCertWatcher string
  | AddHealthzCheck string
  | AddReadyzCheck string
  | StartManager

record Boot =
  calls :: "call list"
  tlsArrays :: "tls_opt arrays"
  objects :: "obj list"

record BootEnv =
  callErr :: "call list \<Rightarrow> call \<Rightarrow> string option"

type_synonym 'a boot = "Boot \<Rightarrow> Boot \<times> 'a process"

definition boot_return :: "'a \<Rightarrow> 'a boot" where
  "boot_return a b = (b, Continues a)"

definition boot_bind :: "'a boot \<Rightarrow> ('a \<Rightarrow> 'b boot) \<Rightarrow> 'b boot" where
  "boot_bind m f b =
     (case m b of
        (b', Continues a) \<Rightarrow> f a b'
      | (b', Exits code) \<Rightarrow> (b', Exits code)
      | (b', Panics msg) \<Rightarrow> (b', Panics msg))"

text \<open>A call on the manager or a library; every error branch of \<^verbatim>\<open>main\<close> is \<^verbatim>\<open>os.Exit(1)\<close>.\<close>

definition boot_call :: "BootEnv \<Rightarrow> call \<Rightarrow> unit boot" where
  "boot_call env c b =
     (b\<lparr>calls := calls b @ [c]\<rparr>, if callErr env (calls b) c = None then Continues () else Exits 1)"

definition boot_new :: "obj \<Rightarrow> nat boot" where
  "boot_new ob b = (b\<lparr>objects := objects b @ [ob]\<rparr>, Continues (length (objects b)))"

definition boot_append :: "tls_opt \<Rightarrow> slice option \<Rightarrow> slice option boot" where
  "boot_append x s b =
     (let (s', mem) = slice_append x s (tlsArrays b) in (b\<lparr>tlsArrays := mem\<rparr>, Continues s'))"

definition DnsPolicy_SetupWithManager :: "BootEnv \<Rightarrow> nat \<Rightarrow> nat \<Rightarrow> unit boot" where
  "DnsPolicy_SetupWithManager env index cache =
     boot_call env (CompleteController
       \<lparr>regFor = ''DnsPolicy'', regFilter = None, regName = ''dnspolicy'',
        regRecorder = Some ''dnspolicy-controller'', regIndex = index, regCache = cache\<rparr>)"

definition Pod_SetupWithManager :: "BootEnv \<Rightarrow> nat \<Rightarrow> nat \<Rightarrow> unit boot" where
  "Pod_SetupWithManager env index cache =
     boot_call env (CompleteController
       \<lparr>regFor = ''Pod'', regFilter = Some podEventFilter, regName = ''pod'',
        regRecorder = None, regIndex = index, regCache = cache\<rparr>)"

text \<open>The certificate watcher of one server, if its path is set: whether there is one, and the options with it.\<close>

definition cert_watcher ::
  "BootEnv \<Rightarrow> string \<Rightarrow> string \<Rightarrow> string \<Rightarrow> string \<Rightarrow> slice option \<Rightarrow> (bool \<times> slice option) boot" where
  "cert_watcher env watcher path certName certKey tlsOpts =
     (if length path > 0
      then boot_bind (boot_call env (NewCertWatcher (filepath_Join path certName) (filepath_Join path certKey))) (\<lambda>_.
           boot_bind (boot_append (UseCertWatcher watcher) tlsOpts) (\<lambda>opts.
           boot_return (True, opts)))
      else boot_return (False, tlsOpts))"

definition tls_setup ::
  "BootEnv \<Rightarrow> ControllerFlags \<Rightarrow> ((bool \<times> slice option) \<times> (bool \<times> slice option)) boot" where
  "tls_setup env flags =
     boot_bind (if \<not> enableHTTP2 flags then boot_append DisableHTTP2 None else boot_return None) (\<lambda>tlsOpts.
     boot_bind (cert_watcher env ''webhook'' (webhookCertPath flags) (webhookCertName flags)
                  (webhookCertKey flags) tlsOpts) (\<lambda>webhookSide.
     boot_bind (cert_watcher env ''metrics'' (metricsCertPath flags) (metricsCertName flags)
                  (metricsCertKey flags) tlsOpts) (\<lambda>metricsSide.
     boot_return (webhookSide, metricsSide))))"

definition manager_options :: "ControllerFlags \<Rightarrow> slice option \<Rightarrow> slice option \<Rightarrow> ManagerOptions" where
  "manager_options flags webhookTLSOpts metricsTLSOpts =
     \<lparr>mgrMetricsAddr = metricsAddr flags, mgrSecureServing = secureMetrics flags,
      mgrAuthFilter = secureMetrics flags, mgrMetricsTLS = metricsTLSOpts, mgrWebhookTLS = webhookTLSOpts,
      mgrProbeAddr = probeAddr flags, mgrLeaderElection = enableLeaderElection flags,
      mgrLeaderElectionID = ''afd794be.dnspolicies.io''\<rparr>"

text \<open>The indexes, the cache, both reconcilers and the API server.\<close>

definition wire_components :: "BootEnv \<Rightarrow> ControllerFlags \<Rightarrow> unit boot" where
  "wire_components env flags =
     boot_bind (boot_new (PodIndexObj NewPodIndex)) (\<lambda>podIndexRef.
     boot_bind (boot_new (PolicyIndexObj NewPolicyIndex)) (\<lambda>policyIndexRef.
     boot_bind (boot_new (CacheObj podIndexRef policyIndexRef [])) (\<lambda>cacheRef.
     boot_bind (DnsPolicy_SetupWithManager env policyIndexRef cacheRef) (\<lambda>_.
     boot_bind (Pod_SetupWithManager env podIndexRef cacheRef) (\<lambda>_.
     boot_call env (AddAPIServer (NewAPIServer (apiAddr flags)) cacheRef))))))"

definition boot_when :: "bool \<Rightarrow> unit boot \<Rightarrow> unit boot" where
  "boot_when c m = (if c then m else boot_return ())"

definition manager_setup ::
  "BootEnv \<Rightarrow> ControllerFlags \<Rightarrow> (bool \<times> slice option) \<times> (bool \<times> slice option) \<Rightarrow> unit boot" where
  "manager_setup env flags =
     (\<lambda>((webhookWatcher, webhookTLSOpts), (metricsWatcher, metricsTLSOpts)).
     boot_bind (boot_call env GetConfigOrDie) (\<lambda>_.
     boot_bind (boot_call env (NewManager (manager_options flags webhookTLSOpts metricsTLSOpts))) (\<lambda>_.
     boot_bind (wire_components env flags) (\<lambda>_.
     boot_bind (boot_when metricsWatcher (boot_call env (AddCertWatcher ''metrics''))) (\<lambda>_.
     boot_bind (boot_when webhookWatcher (boot_call env (AddCertWatcher ''webhook''))) (\<lambda>_.
     boot_bind (boot_call env (AddHealthzCheck ''healthz'')) (\<lambda>_.
     boot_call env (AddReadyzCheck ''readyz''))))))))"

definition controller_setup :: "BootEnv \<Rightarrow> ControllerFlags \<Rightarrow> unit boot" where
  "controller_setup env flags = boot_bind (tls_setup env flags) (manager_setup env flags)"

definition controller_main :: "BootEnv \<Rightarrow> ControllerFlags \<Rightarrow> unit boot" where
  "controller_main env flags =
     boot_bind (controller_setup env flags) (\<lambda>_. boot_call env StartManager)"

definition boot0 :: Boot where
  "boot0 = \<lparr>calls = [], tlsArrays = [], objects = []\<rparr>"

lemma calls_boot0 [simp]: "calls boot0 = []"
  by (simp add: boot0_def)

section \<open>Calls that fail\<close>

named_theorems boot_rules \<open>rules for programs that start the controller\<close>

fun all_succeed :: "BootEnv \<Rightarrow> call list \<Rightarrow> call list \<Rightarrow> bool" where
  "all_succeed env made [] = True"
| "all_succeed env made (c # cs) = (callErr env made c = None \<and> all_succeed env (made @ [c]) cs)"

definition last_fails :: "BootEnv \<Rightarrow> call list \<Rightarrow> call list \<Rightarrow> bool" where
  "last_fails env made new \<longleftrightarrow>
     new \<noteq> [] \<and> all_succeed env made (butlast new) \<and> callErr env (made @ butlast new) (last new) \<noteq> None"

text \<open>
  A program makes only calls that satisfy \<open>P\<close>; if it goes on, all of them succeeded, and otherwise
  it ended with code 1 because the last one failed.
\<close>

definition runs_ok :: "BootEnv \<Rightarrow> (call \<Rightarrow> bool) \<Rightarrow> 'a boot \<Rightarrow> bool" where
  "runs_ok env P m \<longleftrightarrow> (\<forall>b. \<exists>new. calls (fst (m b)) = calls b @ new \<and> (\<forall>c \<in> set new. P c) \<and>
     (case snd (m b) of
        Continues _ \<Rightarrow> all_succeed env (calls b) new
      | Exits code \<Rightarrow> code = 1 \<and> last_fails env (calls b) new
      | Panics _ \<Rightarrow> False))"

lemma runs_ok_boot0:
  assumes "runs_ok env P m" and "m boot0 = (b, r)"
  shows "\<forall>c \<in> set (calls b). P c"
    and "(\<exists>a. r = Continues a \<and> all_succeed env [] (calls b)) \<or> (r = Exits 1 \<and> last_fails env [] (calls b))"
proof -
  from assms obtain new where "calls b = calls boot0 @ new" "\<forall>c \<in> set new. P c"
    "case r of Continues _ \<Rightarrow> all_succeed env (calls boot0) new
       | Exits code \<Rightarrow> code = 1 \<and> last_fails env (calls boot0) new | Panics _ \<Rightarrow> False"
    unfolding runs_ok_def by (metis fst_conv snd_conv)
  then show "\<forall>c \<in> set (calls b). P c"
    "(\<exists>a. r = Continues a \<and> all_succeed env [] (calls b)) \<or> (r = Exits 1 \<and> last_fails env [] (calls b))"
    by (cases r; simp)+
qed

lemma runs_ok_calls:
  assumes "runs_ok env P m" and "m b = (b', r)" and "c \<in> set (calls b')"
  shows "c \<in> set (calls b) \<or> P c"
proof -
  from assms(1,2) obtain new where "calls b' = calls b @ new" "\<forall>c \<in> set new. P c"
    unfolding runs_ok_def by (metis fst_conv)
  with assms(3) show ?thesis by auto
qed

lemma all_succeed_append:
  "all_succeed env made (xs @ ys) \<longleftrightarrow> all_succeed env made xs \<and> all_succeed env (made @ xs) ys"
  by (induction xs arbitrary: made) auto

lemma last_fails_append:
  "all_succeed env made xs \<Longrightarrow> last_fails env (made @ xs) ys \<Longrightarrow> last_fails env made (xs @ ys)"
  by (auto simp: last_fails_def butlast_append all_succeed_append)

lemma runs_ok_return [boot_rules]: "runs_ok env P (boot_return a)"
  by (simp add: runs_ok_def boot_return_def)

lemma runs_ok_new [boot_rules]: "runs_ok env P (boot_new ob)"
  by (simp add: runs_ok_def boot_new_def)

lemma runs_ok_append [boot_rules]: "runs_ok env P (boot_append x s)"
  by (simp add: runs_ok_def boot_append_def case_prod_unfold Let_def)

lemma runs_ok_call [boot_rules]: "P c \<Longrightarrow> runs_ok env P (boot_call env c)"
  by (simp add: runs_ok_def boot_call_def last_fails_def)

lemma runs_ok_bind [boot_rules]:
  assumes m: "runs_ok env P m" and f: "\<And>a. runs_ok env P (f a)"
  shows "runs_ok env P (boot_bind m f)"
  unfolding runs_ok_def
proof
  fix b
  obtain b1 r where mb: "m b = (b1, r)" by force
  with m obtain xs where xs: "calls b1 = calls b @ xs" "\<forall>c \<in> set xs. P c"
    "case r of Continues _ \<Rightarrow> all_succeed env (calls b) xs
       | Exits code \<Rightarrow> code = 1 \<and> last_fails env (calls b) xs | Panics _ \<Rightarrow> False"
    unfolding runs_ok_def by (metis fst_conv snd_conv)
  show "\<exists>new. calls (fst (boot_bind m f b)) = calls b @ new \<and> (\<forall>c \<in> set new. P c) \<and>
     (case snd (boot_bind m f b) of Continues _ \<Rightarrow> all_succeed env (calls b) new
      | Exits code \<Rightarrow> code = 1 \<and> last_fails env (calls b) new | Panics _ \<Rightarrow> False)"
  proof (cases r)
    case (Continues a)
    from f [of a] obtain ys where "calls (fst (f a b1)) = calls b1 @ ys" "\<forall>c \<in> set ys. P c"
      "case snd (f a b1) of Continues _ \<Rightarrow> all_succeed env (calls b1) ys
       | Exits code \<Rightarrow> code = 1 \<and> last_fails env (calls b1) ys | Panics _ \<Rightarrow> False"
      unfolding runs_ok_def by blast
    with xs mb Continues show ?thesis
      by (intro exI [of _ "xs @ ys"])
        (auto simp: boot_bind_def all_succeed_append last_fails_append split: process.splits)
  qed (use xs mb in \<open>auto simp: boot_bind_def\<close>)
qed

lemma runs_ok_if [boot_rules]: "(c \<Longrightarrow> runs_ok env P m) \<Longrightarrow> (\<not> c \<Longrightarrow> runs_ok env P m') \<Longrightarrow> runs_ok env P (if c then m else m')"
  by simp

lemma runs_ok_when [boot_rules]: "runs_ok env P m \<Longrightarrow> runs_ok env P (boot_when c m)"
  by (simp add: boot_when_def runs_ok_return)

definition watcher_call :: "call \<Rightarrow> bool" where
  "watcher_call c = (case c of NewCertWatcher _ _ \<Rightarrow> True | _ \<Rightarrow> False)"

definition later_call :: "call \<Rightarrow> bool" where
  "later_call c = (case c of NewCertWatcher _ _ \<Rightarrow> False | NewManager _ \<Rightarrow> False | StartManager \<Rightarrow> False | _ \<Rightarrow> True)"

lemma runs_tls_setup: "runs_ok env watcher_call (tls_setup env flags)"
  unfolding tls_setup_def cert_watcher_def by (intro boot_rules) (auto simp: watcher_call_def)

lemma runs_wire: "runs_ok env later_call (wire_components env flags)"
  unfolding wire_components_def DnsPolicy_SetupWithManager_def Pod_SetupWithManager_def
  by (intro boot_rules) (auto simp: later_call_def)

lemma runs_ok_mono: "runs_ok env P m \<Longrightarrow> (\<And>c. P c \<Longrightarrow> Q c) \<Longrightarrow> runs_ok env Q m"
  unfolding runs_ok_def by blast

lemma runs_manager_setup:
  "runs_ok env (\<lambda>c. later_call c \<or> c = NewManager (manager_options flags (snd (fst x)) (snd (snd x))))
     (manager_setup env flags x)"
  unfolding manager_setup_def case_prod_unfold
  by (intro boot_rules runs_ok_mono [OF runs_wire]) (auto simp: later_call_def)

lemma runs_controller_setup: "runs_ok env (\<lambda>c. c \<noteq> StartManager) (controller_setup env flags)"
  unfolding controller_setup_def
  by (intro boot_rules runs_ok_mono [OF runs_tls_setup] runs_ok_mono [OF runs_manager_setup])
    (auto simp: watcher_call_def later_call_def)

lemma runs_controller_main: "runs_ok env (\<lambda>_. True) (controller_main env flags)"
  unfolding controller_main_def
  by (intro boot_rules runs_ok_mono [OF runs_controller_setup]) simp_all

section \<open>What a start leaves behind\<close>

lemma boot_bind_Continues:
  "boot_bind m f b = (b2, Continues x) \<longleftrightarrow> (\<exists>b1 a. m b = (b1, Continues a) \<and> f a b1 = (b2, Continues x))"
  by (auto simp: boot_bind_def split: prod.splits process.splits)

lemma boot_call_Continues:
  "boot_call env c b = (b2, Continues x) \<longleftrightarrow> b2 = b\<lparr>calls := calls b @ [c]\<rparr> \<and> callErr env (calls b) c = None"
  by (auto simp: boot_call_def)

lemma boot_return_Continues: "boot_return a b = (b2, Continues x) \<longleftrightarrow> b2 = b \<and> x = a"
  by (auto simp: boot_return_def)

lemma boot_new_Continues:
  "boot_new ob b = (b2, Continues x) \<longleftrightarrow> b2 = b\<lparr>objects := objects b @ [ob]\<rparr> \<and> x = length (objects b)"
  by (auto simp: boot_new_def)

lemma boot_when_Continues:
  "boot_when c m b = (b2, Continues x) \<longleftrightarrow> (if c then m b = (b2, Continues x) else b2 = b)"
  by (auto simp: boot_when_def boot_return_def)

lemma boot_append_Continues:
  "boot_append x s b = (b2, Continues s') \<longleftrightarrow>
     (\<exists>mem. slice_append x s (tlsArrays b) = (s', mem) \<and> b2 = b\<lparr>tlsArrays := mem\<rparr>)"
  by (auto simp: boot_append_def split: prod.split)

lemmas boot_Continues = boot_bind_Continues boot_call_Continues boot_return_Continues boot_new_Continues
  boot_when_Continues boot_append_Continues

text \<open>
  The options of one server after its watcher was set up: its own elements are the old ones and its
  watcher, and as the old slice was full no other slice has changed.
\<close>

lemma cert_watcher_result:
  assumes "cert_watcher env w path certName certKey s b = (b2, Continues (created, s'))"
    and "slice_ok (tlsArrays b) s" and "slice_full s"
  shows "created = (path \<noteq> []) \<and> objects b2 = objects b \<and>
    slice_elems (tlsArrays b2) s' =
      slice_elems (tlsArrays b) s @ (if path \<noteq> [] then [UseCertWatcher w] else []) \<and>
    slice_ok (tlsArrays b2) s' \<and>
    (\<forall>t. slice_ok (tlsArrays b) t \<longrightarrow>
       slice_elems (tlsArrays b2) t = slice_elems (tlsArrays b) t \<and> slice_ok (tlsArrays b2) t)"
proof (cases "path = []")
  case True
  then show ?thesis using assms by (simp add: cert_watcher_def boot_Continues)
next
  case False
  with assms(1) obtain mem where mem: "slice_append (UseCertWatcher w) s (tlsArrays b) = (s', mem)"
    "tlsArrays b2 = mem" "objects b2 = objects b" "created"
    by (auto simp: cert_watcher_def boot_Continues)
  with False slice_append_elems [OF assms(2) mem(1)] slice_append_full [OF assms(3) _ mem(1)] show ?thesis
    by auto
qed

definition base_opts :: "ControllerFlags \<Rightarrow> tls_opt list" where
  "base_opts flags = (if enableHTTP2 flags then [] else [DisableHTTP2])"

lemma base_opts_result:
  assumes "(if \<not> enableHTTP2 flags then boot_append DisableHTTP2 None else boot_return None) boot0 = (b, Continues s)"
  shows "slice_ok (tlsArrays b) s \<and> slice_full s \<and> slice_elems (tlsArrays b) s = base_opts flags \<and> objects b = []"
proof (cases "enableHTTP2 flags")
  case True
  with assms show ?thesis
    by (simp add: boot_Continues slice_ok_def slice_full_def slice_elems_def base_opts_def boot0_def)
next
  case False
  with assms obtain mem where mem: "slice_append DisableHTTP2 None [] = (s, mem)" "tlsArrays b = mem" "objects b = []"
    by (auto simp: boot_Continues boot0_def)
  have "slice_ok ([] :: tls_opt arrays) None" "slice_elems ([] :: tls_opt arrays) None = []"
    by (simp_all add: slice_ok_def slice_elems_def)
  with slice_append_elems [OF _ mem(1)] slice_append_nil_full [OF mem(1)] mem False show ?thesis
    by (simp add: base_opts_def)
qed

lemma tls_setup_result:
  assumes "tls_setup env flags boot0 = (b, Continues ((ww, wt), (mw, mt)))"
  shows "ww = (webhookCertPath flags \<noteq> [])" and "mw = (metricsCertPath flags \<noteq> [])" and "objects b = []"
    and "slice_elems (tlsArrays b) wt = base_opts flags @ (if ww then [UseCertWatcher ''webhook''] else [])"
    and "slice_elems (tlsArrays b) mt = base_opts flags @ (if mw then [UseCertWatcher ''metrics''] else [])"
proof -
  obtain b1 s b2 where base: "(if \<not> enableHTTP2 flags then boot_append DisableHTTP2 None else boot_return None) boot0 = (b1, Continues s)"
    and web: "cert_watcher env ''webhook'' (webhookCertPath flags) (webhookCertName flags) (webhookCertKey flags) s b1
      = (b2, Continues (ww, wt))"
    and met: "cert_watcher env ''metrics'' (metricsCertPath flags) (metricsCertName flags) (metricsCertKey flags) s b2
      = (b, Continues (mw, mt))"
    using assms by (auto simp: tls_setup_def boot_bind_Continues boot_return_Continues)
  from base have s: "slice_ok (tlsArrays b1) s" "slice_full s"
    "slice_elems (tlsArrays b1) s = base_opts flags" "objects b1 = []"
    by (blast dest: base_opts_result)+
  note r1 = cert_watcher_result [OF web s(1,2)]
  then have "slice_ok (tlsArrays b2) s" using s(1) by blast
  from r1 s cert_watcher_result [OF met this s(2)]
  show "ww = (webhookCertPath flags \<noteq> [])" "mw = (metricsCertPath flags \<noteq> [])" "objects b = []"
    "slice_elems (tlsArrays b) wt = base_opts flags @ (if ww then [UseCertWatcher ''webhook''] else [])"
    "slice_elems (tlsArrays b) mt = base_opts flags @ (if mw then [UseCertWatcher ''metrics''] else [])"
    by auto
qed

abbreviation policy_reg :: Registration where
  "policy_reg \<equiv> \<lparr>regFor = ''DnsPolicy'', regFilter = None, regName = ''dnspolicy'',
     regRecorder = Some ''dnspolicy-controller'', regIndex = 1, regCache = 2\<rparr>"

abbreviation pod_reg :: Registration where
  "pod_reg \<equiv> \<lparr>regFor = ''Pod'', regFilter = Some podEventFilter, regName = ''pod'',
     regRecorder = None, regIndex = 0, regCache = 2\<rparr>"

lemma wire_components_done:
  assumes "wire_components env flags b = (b2, Continues u)" and "objects b = []"
  shows "b2 = b\<lparr>calls := calls b @ [CompleteController policy_reg, CompleteController pod_reg,
       AddAPIServer (NewAPIServer (apiAddr flags)) 2],
     objects := [PodIndexObj NewPodIndex, PolicyIndexObj NewPolicyIndex, CacheObj 0 1 []]\<rparr>"
  using assms
  by (clarsimp simp: wire_components_def DnsPolicy_SetupWithManager_def Pod_SetupWithManager_def boot_Continues
      numeral_2_eq_2)

lemma boot_when_call_done:
  "boot_when c (boot_call env x) b = (b2, Continues u) \<Longrightarrow> b2 = b\<lparr>calls := calls b @ (if c then [x] else [])\<rparr>"
  by (cases c) (simp_all add: boot_when_Continues boot_call_Continues)

definition setup_calls :: "ControllerFlags \<Rightarrow> slice option \<Rightarrow> slice option \<Rightarrow> call list" where
  "setup_calls flags wt mt =
     [GetConfigOrDie, NewManager (manager_options flags wt mt), CompleteController policy_reg,
      CompleteController pod_reg, AddAPIServer (NewAPIServer (apiAddr flags)) 2] @
     (if metricsCertPath flags \<noteq> [] then [AddCertWatcher ''metrics''] else []) @
     (if webhookCertPath flags \<noteq> [] then [AddCertWatcher ''webhook''] else []) @
     [AddHealthzCheck ''healthz'', AddReadyzCheck ''readyz'']"

lemma controller_setup_done:
  assumes "controller_setup env flags boot0 = (b, Continues ())"
  obtains b1 wt mt where
    "tls_setup env flags boot0 =
       (b1, Continues ((webhookCertPath flags \<noteq> [], wt), (metricsCertPath flags \<noteq> [], mt)))"
    and "tlsArrays b = tlsArrays b1"
    and "objects b = [PodIndexObj NewPodIndex, PolicyIndexObj NewPolicyIndex, CacheObj 0 1 []]"
    and "calls b = calls b1 @ setup_calls flags wt mt"
proof -
  from assms obtain b1 ww wt mw mt b2 b3 b4 where tls: "tls_setup env flags boot0 = (b1, Continues ((ww, wt), (mw, mt)))"
    and wire: "wire_components env flags
      (b1\<lparr>calls := calls b1 @ [GetConfigOrDie, NewManager (manager_options flags wt mt)]\<rparr>) = (b2, Continues ())"
    and watchers: "boot_when mw (boot_call env (AddCertWatcher ''metrics'')) b2 = (b3, Continues ())"
      "boot_when ww (boot_call env (AddCertWatcher ''webhook'')) b3 = (b4, Continues ())"
    and checks: "b = b4\<lparr>calls := calls b4 @ [AddHealthzCheck ''healthz'', AddReadyzCheck ''readyz'']\<rparr>"
    by (clarsimp simp: controller_setup_def manager_setup_def boot_bind_Continues boot_call_Continues)
  note t = tls_setup_result [OF tls]
  show ?thesis
    using wire_components_done [OF wire] boot_when_call_done [OF watchers(1)] boot_when_call_done [OF watchers(2)]
    by (intro that [of b1 wt mt]) (simp_all add: tls t(1,2,3) checks setup_calls_def)
qed

lemma started_after_setup:
  assumes "controller_main env flags boot0 = (b, r)" and "StartManager \<in> set (calls b)"
  obtains b1 where "controller_setup env flags boot0 = (b1, Continues ())"
    and "b = b1\<lparr>calls := calls b1 @ [StartManager]\<rparr>"
proof -
  obtain b1 r1 where s: "controller_setup env flags boot0 = (b1, r1)" by force
  then have no_start: "StartManager \<notin> set (calls b1)"
    using runs_ok_boot0(1) [OF runs_controller_setup] by blast
  show ?thesis
  proof (cases r1)
    case (Continues u)
    then show ?thesis using that s assms(1) by (simp add: controller_main_def boot_bind_def boot_call_def)
  qed (use s no_start assms in \<open>auto simp: controller_main_def boot_bind_def\<close>)
qed

text \<open>The cache that a pointer stands for.\<close>

definition cache_at :: "obj list \<Rightarrow> nat \<Rightarrow> BlocklistCache option" where
  "cache_at os c =
     (case os ! c of
        CacheObj p q es \<Rightarrow>
          (case (os ! p, os ! q) of
             (PodIndexObj pi, PolicyIndexObj pol) \<Rightarrow>
               Some \<lparr>podIndex = pi, policyIndex = pol, entries = es\<rparr>
           | _ \<Rightarrow> None)
      | _ \<Rightarrow> None)"

text \<open>
  Both reconcilers, the API server at its address, the checks and exactly the configured
  certificate watchers are registered, and the reconcilers and the API server share one cache, in
  its initial state, whose indexes are those that the reconcilers write.
\<close>

definition wired :: "ControllerFlags \<Rightarrow> Boot \<Rightarrow> bool" where
  "wired flags b \<longleftrightarrow>
     (\<exists>pol pod. {CompleteController pol, CompleteController pod,
          AddAPIServer (NewAPIServer (apiAddr flags)) (regCache pol),
          AddHealthzCheck ''healthz'', AddReadyzCheck ''readyz''} \<subseteq> set (calls b) \<and>
        regFor pol = ''DnsPolicy'' \<and> regFor pod = ''Pod'' \<and> regFilter pod = Some podEventFilter \<and>
        regCache pod = regCache pol \<and> objects b ! regCache pol = CacheObj (regIndex pod) (regIndex pol) [] \<and>
        cache_at (objects b) (regCache pol) = Some initial_cache) \<and>
     (AddCertWatcher ''webhook'' \<in> set (calls b) \<longleftrightarrow> webhookCertPath flags \<noteq> []) \<and>
     (AddCertWatcher ''metrics'' \<in> set (calls b) \<longleftrightarrow> metricsCertPath flags \<noteq> [])"

lemma wired_after_setup:
  assumes "controller_setup env flags boot0 = (b, Continues ())"
  shows "wired flags (b\<lparr>calls := calls b @ [StartManager]\<rparr>) \<and> all_succeed env [] (calls b)"
proof -
  have ok: "all_succeed env [] (calls b)"
    using runs_ok_boot0(2) [OF runs_controller_setup assms] by simp
  obtain b0 wt mt where tls: "tls_setup env flags boot0 =
      (b0, Continues ((webhookCertPath flags \<noteq> [], wt), (metricsCertPath flags \<noteq> [], mt)))"
    and obs: "objects b = [PodIndexObj NewPodIndex, PolicyIndexObj NewPolicyIndex, CacheObj 0 1 []]"
    and cs: "calls b = calls b0 @ setup_calls flags wt mt"
    using controller_setup_done [OF assms] by metis
  have "AddCertWatcher w \<notin> set (calls b0)" for w
    using runs_ok_boot0(1) [OF runs_tls_setup tls] by (auto simp: watcher_call_def)
  moreover have "objects b ! 2 = CacheObj 0 1 []" "cache_at (objects b) 2 = Some initial_cache"
    by (simp_all add: obs cache_at_def initial_cache_def NewBlocklistCache_def)
  ultimately have "wired flags (b\<lparr>calls := calls b @ [StartManager]\<rparr>)"
    unfolding wired_def by (intro conjI exI [of _ policy_reg] exI [of _ pod_reg]) (simp_all add: cs setup_calls_def)
  with ok show ?thesis by blast
qed

text \<open>
  The controller starts completely or not at all. The program goes on exactly if every call
  succeeded, and otherwise ends with code 1 right after the first call that failed. When the manager
  is started, every call before it succeeded and everything is wired: both reconcilers (the one for
  pods with the event filter), the API server, the checks and the configured certificate watchers
  are registered, on one shared cache in its initial state.
\<close>

lemma controller_main_outcome:
  "case controller_main env flags boot0 of (b, r) \<Rightarrow>
     (r = Continues () \<and> all_succeed env [] (calls b) \<or> r = Exits 1 \<and> last_fails env [] (calls b)) \<and>
     (r = Continues () \<longrightarrow> StartManager \<in> set (calls b)) \<and>
     (StartManager \<in> set (calls b) \<longrightarrow>
        all_succeed env [] (butlast (calls b)) \<and> last (calls b) = StartManager \<and> wired flags b)"
proof -
  obtain b r where main: "controller_main env flags boot0 = (b, r)" by force
  have "r = Continues () \<and> all_succeed env [] (calls b) \<or> r = Exits 1 \<and> last_fails env [] (calls b)"
    using runs_ok_boot0(2) [OF runs_controller_main main] by auto
  moreover have "r = Continues () \<longrightarrow> StartManager \<in> set (calls b)"
    using main by (auto simp: controller_main_def boot_Continues)
  moreover have "all_succeed env [] (butlast (calls b)) \<and> last (calls b) = StartManager \<and> wired flags b"
    if started: "StartManager \<in> set (calls b)"
  proof -
    obtain b1 where b1: "controller_setup env flags boot0 = (b1, Continues ())" "b = b1\<lparr>calls := calls b1 @ [StartManager]\<rparr>"
      using started_after_setup [OF main started] by blast
    from wired_after_setup [OF b1(1)] show ?thesis by (simp add: b1(2))
  qed
  ultimately show ?thesis using main by simp
qed

section \<open>Properties\<close>

definition sample_flags :: ControllerFlags where
  "sample_flags =
     \<lparr>metricsAddr = '':8443'', probeAddr = '':8081'', apiAddr = '':5959'', enableLeaderElection = True,
      secureMetrics = True, webhookCertPath = ''/certs'', webhookCertName = ''tls.crt'', webhookCertKey = ''tls.key'',
      metricsCertPath = ''/metrics'', metricsCertName = ''tls.crt'', metricsCertKey = ''tls.key'', enableHTTP2 = False\<rparr>"

definition fair_env :: BootEnv where
  "fair_env = \<lparr>callErr = (\<lambda>_ _. None)\<rparr>"

text \<open>What a server makes of its options: it applies them to its configuration in order.\<close>

definition effective_tls :: "tls_opt arrays \<Rightarrow> slice option \<Rightarrow> tls_config \<Rightarrow> tls_config" where
  "effective_tls mem s cfg = foldl (\<lambda>c opt. apply_opt opt c) cfg (slice_elems mem s)"

definition arrays_kept :: "'a boot \<Rightarrow> bool" where
  "arrays_kept m \<longleftrightarrow> (\<forall>b. tlsArrays (fst (m b)) = tlsArrays b)"

lemma arrays_kept_bind: "arrays_kept m \<Longrightarrow> (\<And>a. arrays_kept (f a)) \<Longrightarrow> arrays_kept (boot_bind m f)"
  unfolding arrays_kept_def
proof
  fix b
  assume kept: "\<forall>b. tlsArrays (fst (m b)) = tlsArrays b" "\<And>a. \<forall>b. tlsArrays (fst (f a b)) = tlsArrays b"
  obtain b1 r where m: "m b = (b1, r)" by force
  then have "tlsArrays b1 = tlsArrays b" using kept(1) by (metis fst_conv)
  then show "tlsArrays (fst (boot_bind m f b)) = tlsArrays b"
    using kept(2) by (cases r) (simp_all add: boot_bind_def m)
qed

lemma arrays_kept_call: "arrays_kept (boot_call env c)"
  by (simp add: arrays_kept_def boot_call_def)

lemma arrays_kept_new: "arrays_kept (boot_new ob)"
  by (simp add: arrays_kept_def boot_new_def)

lemma arrays_kept_when: "arrays_kept m \<Longrightarrow> arrays_kept (boot_when c m)"
  by (simp add: arrays_kept_def boot_when_def boot_return_def)

lemma arrays_kept_manager_setup: "arrays_kept (manager_setup env flags x)"
  unfolding manager_setup_def wire_components_def DnsPolicy_SetupWithManager_def Pod_SetupWithManager_def case_prod_unfold
  by (intro arrays_kept_bind arrays_kept_call arrays_kept_new arrays_kept_when)

lemma manager_created:
  assumes main: "controller_main env flags boot0 = (b, r)" and made: "NewManager opts \<in> set (calls b)"
  obtains b1 ww wt mw mt where "tls_setup env flags boot0 = (b1, Continues ((ww, wt), (mw, mt)))"
    and "tlsArrays b = tlsArrays b1" and "opts = manager_options flags wt mt"
proof -
  obtain b1 r1 where tls: "tls_setup env flags boot0 = (b1, r1)" by force
  have no_mgr: "NewManager opts \<notin> set (calls b1)"
    using runs_ok_boot0(1) [OF runs_tls_setup tls] by (auto simp: watcher_call_def)
  show ?thesis
  proof (cases r1)
    case (Continues x)
    let ?rest = "boot_bind (manager_setup env flags x) (\<lambda>_. boot_call env StartManager)"
    have "controller_main env flags boot0 = ?rest b1"
      using tls Continues by (simp add: controller_main_def controller_setup_def boot_bind_def)
    then have rest: "?rest b1 = (b, r)" using main by simp
    have "runs_ok env (\<lambda>c. later_call c \<or> c = StartManager \<or> c = NewManager (manager_options flags (snd (fst x)) (snd (snd x)))) ?rest"
      by (intro boot_rules runs_ok_mono [OF runs_manager_setup]) auto
    from runs_ok_calls [OF this rest made] no_mgr have "opts = manager_options flags (snd (fst x)) (snd (snd x))"
      by (simp add: later_call_def)
    moreover have "arrays_kept ?rest"
      by (intro arrays_kept_bind arrays_kept_manager_setup arrays_kept_call)
    then have "tlsArrays b = tlsArrays b1" using rest unfolding arrays_kept_def by (metis fst_conv)
    ultimately show ?thesis using that tls Continues by (cases x) auto
  qed (use tls main made no_mgr in \<open>auto simp: controller_main_def controller_setup_def boot_bind_def\<close>)
qed

text \<open>
  C34: each server gets its own TLS options. The option slices of the metrics server and of the
  webhook server grow from one common slice, which Go may let share memory; still, whenever the
  manager is created, applying the options that its two servers then find in memory makes both
  offer only HTTP/1.1 unless HTTP/2 was enabled, and takes the certificate of each from its own
  watcher exactly if its path was given. Serving metrics securely always comes with the
  authentication filter.
\<close>

theorem servers_get_their_tls_options:
  assumes "controller_main env flags boot0 = (b, r)" and "NewManager opts \<in> set (calls b)"
  shows "effective_tls (tlsArrays b) (mgrWebhookTLS opts) cfg =
      cfg\<lparr>NextProtos := (if enableHTTP2 flags then NextProtos cfg else [''http/1.1'']),
          GetCertificate := (if webhookCertPath flags \<noteq> [] then Some ''webhook'' else GetCertificate cfg)\<rparr> \<and>
    effective_tls (tlsArrays b) (mgrMetricsTLS opts) cfg =
      cfg\<lparr>NextProtos := (if enableHTTP2 flags then NextProtos cfg else [''http/1.1'']),
          GetCertificate := (if metricsCertPath flags \<noteq> [] then Some ''metrics'' else GetCertificate cfg)\<rparr> \<and>
    (mgrSecureServing opts \<longrightarrow> mgrAuthFilter opts)"
proof -
  obtain b1 ww wt mw mt where tls: "tls_setup env flags boot0 = (b1, Continues ((ww, wt), (mw, mt)))"
    and mem: "tlsArrays b = tlsArrays b1" and opts: "opts = manager_options flags wt mt"
    using manager_created [OF assms] by blast
  note t = tls_setup_result [OF tls]
  show ?thesis
    unfolding opts by (simp add: manager_options_def effective_tls_def mem t base_opts_def)
qed

theorem servers_get_their_tls_options_witness:
  "\<exists>b opts. controller_main fair_env sample_flags boot0 = (b, Continues ()) \<and> NewManager opts \<in> set (calls b) \<and>
     effective_tls (tlsArrays b) (mgrWebhookTLS opts) \<lparr>NextProtos = [''h2''], GetCertificate = None\<rparr> =
       \<lparr>NextProtos = [''http/1.1''], GetCertificate = Some ''webhook''\<rparr>"
proof -
  obtain b r where main: "controller_main fair_env sample_flags boot0 = (b, r)" by force
  have "\<not> last_fails fair_env [] (calls b)" by (simp add: last_fails_def fair_env_def)
  then have r: "r = Continues ()" using runs_ok_boot0(2) [OF runs_controller_main main] by auto
  then obtain b1 where b1: "controller_setup fair_env sample_flags boot0 = (b1, Continues ())"
    "b = b1\<lparr>calls := calls b1 @ [StartManager]\<rparr>"
    using main by (auto simp: controller_main_def boot_Continues)
  obtain b0 :: Boot and wt mt where "calls b1 = calls b0 @ setup_calls sample_flags wt mt"
    using controller_setup_done [OF b1(1)] by metis
  then have made: "NewManager (manager_options sample_flags wt mt) \<in> set (calls b)"
    by (simp add: b1(2) setup_calls_def)
  have flags: "enableHTTP2 sample_flags = False" "webhookCertPath sample_flags \<noteq> []"
    by (simp_all add: sample_flags_def)
  from servers_get_their_tls_options [OF main made, of "\<lparr>NextProtos = [''h2''], GetCertificate = None\<rparr>"] main r made
  show ?thesis
    by (intro exI [of _ b] exI [of _ "manager_options sample_flags wt mt"]) (simp add: flags)
qed

text \<open>The command line that spells out a configuration.\<close>

definition controller_settings :: "ControllerFlags \<Rightarrow> (string \<times> flag_value) list" where
  "controller_settings f =
     [(''metrics-bind-address'', StrV (metricsAddr f)), (''health-probe-bind-address'', StrV (probeAddr f)),
      (''api-bind-address'', StrV (apiAddr f)), (''leader-elect'', BoolV (enableLeaderElection f)),
      (''metrics-secure'', BoolV (secureMetrics f)), (''webhook-cert-path'', StrV (webhookCertPath f)),
      (''webhook-cert-name'', StrV (webhookCertName f)), (''webhook-cert-key'', StrV (webhookCertKey f)),
      (''metrics-cert-path'', StrV (metricsCertPath f)), (''metrics-cert-name'', StrV (metricsCertName f)),
      (''metrics-cert-key'', StrV (metricsCertKey f)), (''enable-http2'', BoolV (enableHTTP2 f))]"

abbreviation controller_args :: "ControllerFlags \<Rightarrow> string list" where
  "controller_args f \<equiv> map render_flag (controller_settings f)"

lemma controller_settings_fit:
  "\<forall>(name, v) \<in> set (controller_settings f). name \<noteq> [] \<and>
     (\<exists>kind initial. (name, kind, initial) \<in> set controller_decls \<and> value_fits kind v)"
  by (simp add: controller_settings_def controller_decls_def value_fits_def has_kind_def)

lemma flags_of_settings:
  assumes "\<forall>(name, v) \<in> set (controller_settings f). gm_get (actual fs) name = Some v"
  shows "flags_of fs = f"
  using assms by (simp add: controller_settings_def flags_of_def flag_str_def flag_bool_def)

lemma controller_flags_rendered:
  assumes ok: "decls_ok (imported @ controller_decls @ zapFlags)"
  shows "controller_flags imported zapFlags (controller_args f) = Continues f"
proof -
  let ?decls = "imported @ controller_decls @ zapFlags"
  obtain fs where fs: "flag_Vars ?decls NewFlagSet = Continues fs"
    "gm_get (formal fs) = map_option fst \<circ> gm_get ?decls"
    using register_ok [OF ok] by metis
  have "distinct (map fst (controller_settings f))" by (simp add: controller_settings_def)
  moreover have "\<forall>(name, v) \<in> set (controller_settings f). name \<noteq> [] \<and>
     (\<exists>kind initial. (name, kind, initial) \<in> set ?decls \<and> value_fits kind v)"
    using controller_settings_fit [of f] by fastforce
  ultimately obtain fs' where fs': "Parse fs (controller_args f) = Continues fs'"
    "\<forall>(name, v) \<in> set (controller_settings f). gm_get (actual fs') name = Some v"
    using Parse_declared [OF ok fs(2)] by blast
  show ?thesis by (simp add: controller_flags_def fs(1) fs'(1) flags_of_settings [OF fs'(2)])
qed



end
