(* ===== verification/Controller_Program.thy ===== *)
theory Controller_Program
  imports Controller_Main
begin

text \<open>
  The controller as a whole program: the initialisation of its packages and then \<^verbatim>\<open>main\<close>. The package
  of the resource (\<^verbatim>\<open>groupversion_info.go\<close>, \<^verbatim>\<open>dnspolicy_types.go\<close>) creates a scheme builder, takes its
  method \<^verbatim>\<open>AddToScheme\<close> as a value, and only after that registers its types with the builder; the main
  package (\<^verbatim>\<open>cmd/main.go\<close>) adds the types of client-go and of the resource to its scheme and panics
  if that fails. The method value holds the pointer to the builder, so the types that are registered
  later count. The scheme and its builder are code of the Kubernetes libraries: parameters, with
  \<open>scheme_laws\<close> for what their documentation says.
\<close>

section \<open>Initialisation\<close>

type_synonym group_version = "string \<times> string"

record ('b, 's) SchemeLib =
  newBuilder :: "group_version \<Rightarrow> 'b"
  Register :: "'b \<Rightarrow> string list \<Rightarrow> 'b"
  addToScheme :: "'b \<Rightarrow> 's \<Rightarrow> string option \<times> 's"
  newScheme :: 's
  clientgoAddToScheme :: "'s \<Rightarrow> string option \<times> 's"
  recognizes :: "'s \<Rightarrow> group_version \<times> string \<Rightarrow> bool"

definition GroupVersion :: group_version where
  "GroupVersion = (''dns.dnspolicies.io'', ''v1alpha1'')"

text \<open>The variables of the package, with the builders in memory: two of the variables are pointers.\<close>

record 'b V1alpha1 =
  builders :: "'b list"
  SchemeBuilder :: nat
  AddToScheme :: nat

definition v1alpha1_vars :: "('b, 's) SchemeLib \<Rightarrow> 'b V1alpha1" where
  "v1alpha1_vars lib = \<lparr>builders = [newBuilder lib GroupVersion], SchemeBuilder = 0, AddToScheme = 0\<rparr>"

definition v1alpha1_init :: "('b, 's) SchemeLib \<Rightarrow> 'b V1alpha1 \<Rightarrow> 'b V1alpha1" where
  "v1alpha1_init lib pkg =
     pkg\<lparr>builders := (builders pkg)[SchemeBuilder pkg :=
       Register lib (builders pkg ! SchemeBuilder pkg) [''DnsPolicy'', ''DnsPolicyList'']]\<rparr>"

definition Must :: "string option \<times> 's \<Rightarrow> 's process" where
  "Must r = (case fst r of Some err \<Rightarrow> Panics err | None \<Rightarrow> Continues (snd r))"

definition main_init :: "('b, 's) SchemeLib \<Rightarrow> 'b V1alpha1 \<Rightarrow> 's process" where
  "main_init lib pkg =
     and_then (Must (clientgoAddToScheme lib (newScheme lib))) (\<lambda>scheme.
       Must (addToScheme lib (builders pkg ! AddToScheme pkg) scheme))"

definition program_init :: "('b, 's) SchemeLib \<Rightarrow> 's process" where
  "program_init lib = main_init lib (v1alpha1_init lib (v1alpha1_vars lib))"

text \<open>The program: what the calls on the manager do may depend on its scheme.\<close>

definition controller_program ::
  "('b, 's) SchemeLib \<Rightarrow> ('s \<Rightarrow> BootEnv) \<Rightarrow> flag_decl list \<Rightarrow> flag_decl list \<Rightarrow> string list \<Rightarrow> Boot \<times> unit process" where
  "controller_program lib env imported zapFlags args =
     (case program_init lib of
        Panics msg \<Rightarrow> (boot0, Panics msg)
      | Exits code \<Rightarrow> (boot0, Exits code)
      | Continues scheme \<Rightarrow>
          (case controller_flags imported zapFlags args of
             Panics msg \<Rightarrow> (boot0, Panics msg)
           | Exits code \<Rightarrow> (boot0, Exits code)
           | Continues flags \<Rightarrow> controller_main (env scheme) flags boot0))"

section \<open>Lemmas\<close>

definition scheme_laws :: "('b, 's) SchemeLib \<Rightarrow> bool" where
  "scheme_laws lib \<longleftrightarrow>
     (\<forall>gv kinds s s'. addToScheme lib (Register lib (newBuilder lib gv) kinds) s = (None, s') \<longrightarrow>
        (\<forall>x. recognizes lib s' x \<longleftrightarrow> recognizes lib s x \<or> (\<exists>kind \<in> set kinds. x = (gv, kind)))) \<and>
     (\<forall>s s'. clientgoAddToScheme lib s = (None, s') \<longrightarrow> recognizes lib s' (([], ''v1''), ''Pod''))"

lemma Must_Continues: "Must r = Continues s \<longleftrightarrow> r = (None, s)"
  by (cases r) (auto simp: Must_def split: option.split)

lemma and_then_Continues: "and_then m f = Continues b \<longleftrightarrow> (\<exists>a. m = Continues a \<and> f a = Continues b)"
  by (cases m) auto

lemma Must_not_Exits [simp]: "Must r \<noteq> Exits code"
  by (simp add: Must_def split: option.split)

lemma program_init_not_Exits: "program_init lib \<noteq> Exits code"
  by (cases "Must (clientgoAddToScheme lib (newScheme lib))") (auto simp: program_init_def main_init_def)

lemma program_init_recognizes:
  assumes "scheme_laws lib" and "program_init lib = Continues scheme"
  shows "recognizes lib scheme (GroupVersion, ''DnsPolicy'')" and "recognizes lib scheme (GroupVersion, ''DnsPolicyList'')"
    and "recognizes lib scheme (([], ''v1''), ''Pod'')"
proof -
  obtain s where "clientgoAddToScheme lib (newScheme lib) = (None, s)"
    and "addToScheme lib (Register lib (newBuilder lib GroupVersion) [''DnsPolicy'', ''DnsPolicyList'']) s = (None, scheme)"
    using assms(2)
    by (auto simp: program_init_def main_init_def v1alpha1_init_def v1alpha1_vars_def and_then_Continues Must_Continues)
  with assms(1) have "recognizes lib s (([], ''v1''), ''Pod'')"
    and "\<forall>x. recognizes lib scheme x \<longleftrightarrow>
      recognizes lib s x \<or> (\<exists>kind \<in> set [''DnsPolicy'', ''DnsPolicyList'']. x = (GroupVersion, kind))"
    unfolding scheme_laws_def by blast+
  then show "recognizes lib scheme (GroupVersion, ''DnsPolicy'')" and "recognizes lib scheme (GroupVersion, ''DnsPolicyList'')"
    and "recognizes lib scheme (([], ''v1''), ''Pod'')" by (auto simp: GroupVersion_def)
qed

lemma Parse_ends: "Parse fs args = r \<Longrightarrow> (\<exists>fs'. r = Continues fs') \<or> r = Exits 0 \<or> r = Exits 2"
proof (induction fs args arbitrary: r rule: Parse.induct)
  case (1 fs args)
  then show ?case by (cases "parseOne fs args") (auto simp: Parse.simps [of fs args])
qed

lemma flag_Vars_not_Exits: "flag_Vars decls fs \<noteq> Exits code"
proof (induction decls arbitrary: fs)
  case (Cons decl decls)
  then show ?case by (simp add: flag_Var_def)
qed simp

lemma controller_flags_Exits: "controller_flags imported zapFlags args = Exits code \<Longrightarrow> code = 0 \<or> code = 2"
proof -
  assume ends: "controller_flags imported zapFlags args = Exits code"
  show ?thesis
  proof (cases "flag_Vars (imported @ controller_decls @ zapFlags) NewFlagSet")
    case (Continues fs)
    with ends Parse_ends [of fs args] show ?thesis by (auto simp: controller_flags_def)
  qed (use ends flag_Vars_not_Exits in \<open>auto simp: controller_flags_def\<close>)
qed

section \<open>Properties\<close>


text \<open>A scheme as the set of the kinds it recognizes, and a builder that collects kinds.\<close>

definition set_lib :: "(group_version \<times> string list, (group_version \<times> string) set) SchemeLib" where
  "set_lib =
     \<lparr>newBuilder = (\<lambda>gv. (gv, [])), Register = (\<lambda>(gv, ks) kinds. (gv, ks @ kinds)),
      addToScheme = (\<lambda>(gv, ks) s. (None, s \<union> Pair gv ` set ks)), newScheme = {},
      clientgoAddToScheme = (\<lambda>s. (None, insert (([], ''v1''), ''Pod'') s)), recognizes = (\<lambda>s x. x \<in> s)\<rparr>"


end
