(* ===== verification/Sha256.thy ===== *)
theory Sha256
  imports Go_Json "HOL-Library.Word"
begin

unbundle bit_operations_syntax

text \<open>
  What the sources use of Go's \<^verbatim>\<open>crypto/sha256\<close> and \<^verbatim>\<open>encoding/hex\<close>: the SHA-256 digest of a byte
  string (FIPS 180-4) on 32-bit words with wrap-around addition, and its hexadecimal form.
\<close>

type_synonym w8 = "8 word"
type_synonym w32 = "32 word"

section \<open>The compression function\<close>

definition rotr :: "nat \<Rightarrow> w32 \<Rightarrow> w32" where
  "rotr n x = drop_bit n x OR push_bit (32 - n) x"

definition Ch :: "w32 \<Rightarrow> w32 \<Rightarrow> w32 \<Rightarrow> w32" where
  "Ch x y z = (x AND y) XOR (NOT x AND z)"

definition Maj :: "w32 \<Rightarrow> w32 \<Rightarrow> w32 \<Rightarrow> w32" where
  "Maj x y z = (x AND y) XOR (x AND z) XOR (y AND z)"

definition Sigma0 :: "w32 \<Rightarrow> w32" where
  "Sigma0 x = rotr 2 x XOR rotr 13 x XOR rotr 22 x"

definition Sigma1 :: "w32 \<Rightarrow> w32" where
  "Sigma1 x = rotr 6 x XOR rotr 11 x XOR rotr 25 x"

definition sigma0 :: "w32 \<Rightarrow> w32" where
  "sigma0 x = rotr 7 x XOR rotr 18 x XOR drop_bit 3 x"

definition sigma1 :: "w32 \<Rightarrow> w32" where
  "sigma1 x = rotr 17 x XOR rotr 19 x XOR drop_bit 10 x"

definition K :: "w32 list" where
  "K =
     [0x428a2f98, 0x71374491, 0xb5c0fbcf, 0xe9b5dba5, 0x3956c25b, 0x59f111f1, 0x923f82a4, 0xab1c5ed5,
      0xd807aa98, 0x12835b01, 0x243185be, 0x550c7dc3, 0x72be5d74, 0x80deb1fe, 0x9bdc06a7, 0xc19bf174,
      0xe49b69c1, 0xefbe4786, 0x0fc19dc6, 0x240ca1cc, 0x2de92c6f, 0x4a7484aa, 0x5cb0a9dc, 0x76f988da,
      0x983e5152, 0xa831c66d, 0xb00327c8, 0xbf597fc7, 0xc6e00bf3, 0xd5a79147, 0x06ca6351, 0x14292967,
      0x27b70a85, 0x2e1b2138, 0x4d2c6dfc, 0x53380d13, 0x650a7354, 0x766a0abb, 0x81c2c92e, 0x92722c85,
      0xa2bfe8a1, 0xa81a664b, 0xc24b8b70, 0xc76c51a3, 0xd192e819, 0xd6990624, 0xf40e3585, 0x106aa070,
      0x19a4c116, 0x1e376c08, 0x2748774c, 0x34b0bcb5, 0x391c0cb3, 0x4ed8aa4a, 0x5b9cca4f, 0x682e6ff3,
      0x748f82ee, 0x78a5636f, 0x84c87814, 0x8cc70208, 0x90befffa, 0xa4506ceb, 0xbef9a3f7, 0xc67178f2]"

datatype digest = Digest w32 w32 w32 w32 w32 w32 w32 w32

definition H0 :: digest where
  "H0 = Digest 0x6a09e667 0xbb67ae85 0x3c6ef372 0xa54ff53a 0x510e527f 0x9b05688c 0x1f83d9ab 0x5be0cd19"

text \<open>The message schedule: \<open>ws\<close> holds the last sixteen words, the oldest first.\<close>

fun schedule :: "nat \<Rightarrow> w32 list \<Rightarrow> w32 list" where
  "schedule 0 ws = []"
| "schedule (Suc n) ws =
     (let w = sigma1 (ws ! 14) + ws ! 9 + sigma0 (ws ! 1) + ws ! 0
      in w # schedule n (tl ws @ [w]))"

fun round_step :: "digest \<Rightarrow> w32 \<times> w32 \<Rightarrow> digest" where
  "round_step (Digest a b c d e f g h) (k, w) =
     (let t1 = h + Sigma1 e + Ch e f g + k + w;
          t2 = Sigma0 a + Maj a b c
      in Digest (t1 + t2) a b c (d + t1) e f g)"

fun add_digest :: "digest \<Rightarrow> digest \<Rightarrow> digest" where
  "add_digest (Digest a b c d e f g h) (Digest a' b' c' d' e' f' g' h') =
     Digest (a + a') (b + b') (c + c') (d + d') (e + e') (f + f') (g + g') (h + h')"

definition compress :: "digest \<Rightarrow> w32 list \<Rightarrow> digest" where
  "compress hv block = add_digest hv (foldl round_step hv (zip K (block @ schedule 48 block)))"

section \<open>Padding and blocks\<close>

text \<open>Big-endian bytes of a 64-bit length and of a 32-bit word.\<close>

definition be64 :: "64 word \<Rightarrow> w8 list" where
  "be64 n = map (\<lambda>k. ucast (drop_bit k n)) [56, 48, 40, 32, 24, 16, 8, 0]"

definition be32 :: "w32 \<Rightarrow> w8 list" where
  "be32 w = map (\<lambda>k. ucast (drop_bit k w)) [24, 16, 8, 0]"

definition pad :: "w8 list \<Rightarrow> w8 list" where
  "pad m = m @ 0x80 # replicate ((119 - length m mod 64) mod 64) 0 @ be64 (push_bit 3 (word_of_nat (length m)))"

fun words_of :: "w8 list \<Rightarrow> w32 list" where
  "words_of (a # b # c # d # rest) =
     (push_bit 24 (ucast a) OR push_bit 16 (ucast b) OR push_bit 8 (ucast c) OR ucast d) # words_of rest"
| "words_of _ = []"

function blocks :: "w32 list \<Rightarrow> digest \<Rightarrow> digest" where
  "blocks ws hv = (if length ws < 16 then hv else blocks (drop 16 ws) (compress hv (take 16 ws)))"
  by auto
termination
  by (relation "measure (length \<circ> fst)") auto

declare blocks.simps [simp del]

fun digest_words :: "digest \<Rightarrow> w32 list" where
  "digest_words (Digest a b c d e f g h) = [a, b, c, d, e, f, g, h]"

definition Sum256 :: "string \<Rightarrow> w8 list" where
  "Sum256 data =
     concat (map be32 (digest_words (blocks (words_of (pad (map of_char data))) H0)))"

definition EncodeToString :: "w8 list \<Rightarrow> string" where
  "EncodeToString bs = concat (map (\<lambda>b. [hex_digit (unat b div 16), hex_digit (unat b)]) bs)"

section \<open>Shape of the digest\<close>

lemma length_be32 [simp]: "length (be32 w) = 4"
  by (simp add: be32_def)

lemma length_Sum256 [simp]: "length (Sum256 data) = 32"
proof -
  obtain a b c d e f g h where "blocks (words_of (pad (map of_char data))) H0 = Digest a b c d e f g h"
    by (cases "blocks (words_of (pad (map of_char data))) H0")
  then show ?thesis by (simp add: Sum256_def)
qed

text \<open>A padded message is a whole number of blocks, so \<open>blocks\<close> leaves no word behind.\<close>

lemma pad_arith:
  fixes k :: nat
  assumes "k < 64"
  shows "(k + (9 + (119 - k) mod 64)) mod 64 = 0"
proof (cases "k \<le> 55")
  case True
  then have "119 - k = (55 - k) + 64" by simp
  then have "(119 - k) mod 64 = 55 - k" by (simp del: add_diff_assoc2)
  with True show ?thesis by simp
next
  case False
  then have "(119 - k) mod 64 = 119 - k" by simp
  with assms show ?thesis by simp
qed

lemma length_pad: "length (pad m) mod 64 = 0"
proof -
  let ?k = "length m mod 64"
  have "length (pad m) = length m + (9 + (119 - ?k) mod 64)" by (simp add: pad_def be64_def)
  also have "\<dots> mod 64 = (?k + (9 + (119 - ?k) mod 64)) mod 64" by (rule mod_add_left_eq [symmetric])
  finally show ?thesis by (simp only: pad_arith [of ?k] mod_less_divisor zero_less_numeral)
qed

lemma length_words_of: "length (words_of bs) = length bs div 4"
  by (induction bs rule: words_of.induct) auto

lemma length_EncodeToString [simp]: "length (EncodeToString bs) = 2 * length bs"
  by (induction bs) (simp_all add: EncodeToString_def)

lemma EncodeToString_digits: "c \<in> set (EncodeToString bs) \<Longrightarrow> \<exists>n < 16. c = hex_digit n"
proof -
  have "\<exists>n < 16. hex_digit k = hex_digit n" for k
    by (rule exI [of _ "k mod 16"]) (simp add: hex_digit_def)
  then show "c \<in> set (EncodeToString bs) \<Longrightarrow> ?thesis" by (auto simp: EncodeToString_def)
qed

lemma hex_digit_inj: "hex_digit m = hex_digit n \<Longrightarrow> m mod 16 = n mod 16"
  by (metis hex_value_digit option.inject)

lemma EncodeToString_inj: "EncodeToString xs = EncodeToString ys \<Longrightarrow> xs = ys"
proof (induction xs arbitrary: ys)
  case Nil
  then show ?case by (cases ys) (simp_all add: EncodeToString_def)
next
  case (Cons x xs)
  then obtain y ys' where ys: "ys = y # ys'" by (cases ys) (simp_all add: EncodeToString_def)
  have digits: "hex_digit (unat x div 16) = hex_digit (unat y div 16)" "hex_digit (unat x) = hex_digit (unat y)"
    and rest: "EncodeToString xs = EncodeToString ys'"
    using Cons.prems by (simp_all add: ys EncodeToString_def)
  have "unat x < 256" "unat y < 256" using unsigned_less [of x] unsigned_less [of y] by simp_all
  then have "unat x div 16 = unat y div 16" "unat x mod 16 = unat y mod 16"
    using digits [THEN hex_digit_inj] by simp_all
  then have "unat x = unat y" by (metis div_mult_mod_eq)
  then have "x = y" by (rule word_unat_eq_iff [THEN iffD2])
  then show ?case using Cons.IH [OF rest] by (simp add: ys)
qed

end
