(* ===== verification/Policy_Hash.thy ===== *)
theory Policy_Hash
  imports Sha256 Api_Types
begin

text \<open>
  \<^verbatim>\<open>controller/internal/controller/hash.go\<close>: the hashes of a selector and of a policy spec. The text
  that is hashed is Go's JSON encoding; the encoder sorts the keys of a map, so the sorting that
  the source does before has no effect on the result. \<open>sort.Strings\<close> sorts in place: the slice it
  is given is the caller's, and the model of \<open>ComputeSpecHash\<close> returns the caller's spec as the
  call leaves it. Both theorems speak about strings that are valid UTF-8, as all strings read from
  the API server are: the encoder replaces invalid bytes, so that texts could coincide.
\<close>

section \<open>JSON of maps and slices\<close>

definition json_of_strmap :: "strmap \<Rightarrow> json" where
  "json_of_strmap m =
     (case m of
        None \<Rightarrow> JNull
      | Some kvs \<Rightarrow> JObj (map (\<lambda>(k, v). (k, JStr v)) (sort_key fst kvs)))"

definition json_of_strslice :: "strslice \<Rightarrow> json" where
  "json_of_strslice xs = (case xs of None \<Rightarrow> JNull | Some ys \<Rightarrow> JArr (map JStr ys))"

section \<open>Operations\<close>

text \<open>\<^verbatim>\<open>for _, k := range keys { sortedSelector[k] = selector[k] }\<close>\<close>

primrec copy_keys :: "string list \<Rightarrow> strmap \<Rightarrow> (string, string) gomap \<Rightarrow> (string, string) gomap" where
  "copy_keys [] selector sortedSelector = sortedSelector"
| "copy_keys (k # rest) selector sortedSelector =
     copy_keys rest selector
       (gm_put k (case nm_get selector k of Some v \<Rightarrow> v | None \<Rightarrow> []) sortedSelector)"

definition sorted_selector :: "strmap \<Rightarrow> (string, string) gomap" where
  "sorted_selector selector = copy_keys (sort (map fst (nm_list selector))) selector []"

definition ComputeSelectorHash :: "strmap \<Rightarrow> string + string" where
  "ComputeSelectorHash selector =
     (if nm_len selector = 0 then Inr []
      else case Marshal (json_of_strmap (Some (sorted_selector selector))) of
             Inl err \<Rightarrow> Inl err
           | Inr data \<Rightarrow> Inr (EncodeToString (Sum256 data)))"

record NormalizedSpec =
  normTargetSelector :: strmap
  normBlockList :: strslice

definition json_of_normalized :: "NormalizedSpec \<Rightarrow> json" where
  "json_of_normalized n =
     JObj [(''TargetSelector'', json_of_strmap (normTargetSelector n)),
           (''BlockList'', json_of_strslice (normBlockList n))]"

definition ComputeSpecHash :: "DnsPolicySpec \<Rightarrow> (string + string) \<times> DnsPolicySpec" where
  "ComputeSpecHash spec =
     (let normalized = \<lparr>normTargetSelector = TargetSelector spec, normBlockList = BlockList spec\<rparr>;
          spec1 = (case normBlockList normalized of
                     None \<Rightarrow> spec
                   | Some bl \<Rightarrow> spec\<lparr>BlockList := Some (sort bl)\<rparr>);
          normalized1 = normalized\<lparr>normBlockList := BlockList spec1\<rparr>;
          normalized2 = (case normTargetSelector normalized1 of
                           None \<Rightarrow> normalized1
                         | Some m \<Rightarrow> normalized1\<lparr>normTargetSelector := Some (sorted_selector (Some m))\<rparr>)
      in (case Marshal (json_of_normalized normalized2) of
            Inl err \<Rightarrow> Inl err
          | Inr data \<Rightarrow> Inr (EncodeToString (Sum256 data)),
          spec1))"

section \<open>The hashed text determines the map\<close>

lemma copy_keys_get:
  "gm_get (copy_keys ks sel m) k =
     (if k \<in> set ks then Some (case nm_get sel k of Some v \<Rightarrow> v | None \<Rightarrow> []) else gm_get m k)"
  by (induction ks arbitrary: m) (auto simp: gomap_simps)

lemma copy_keys_wf: "gm_wf m \<Longrightarrow> gm_wf (copy_keys ks sel m)"
  by (induction ks arbitrary: m) auto

lemma sorted_selector_get: "gm_get (sorted_selector sel) = nm_get sel"
proof
  fix k
  have "k \<in> set (map fst (nm_list sel)) \<longleftrightarrow> nm_get sel k \<noteq> None"
    by (simp add: map_of_eq_None_iff)
  then show "gm_get (sorted_selector sel) k = nm_get sel k"
    by (cases "nm_get sel k") (simp_all add: sorted_selector_def copy_keys_get)
qed

lemma sorted_selector_wf [simp]: "gm_wf (sorted_selector sel)"
  by (simp add: sorted_selector_def copy_keys_wf)

lemma sort_key_fst_unique:
  assumes "gm_wf m" and "gm_wf m'" and "gm_get m = gm_get m'"
  shows "sort_key fst m = sort_key fst m'"
proof -
  have "mset m = mset m'" using gm_same_iff_get [OF assms(1,2)] assms(3) by (simp add: gm_same_def)
  moreover have "inj_on fst (set m)" using assms(1) by (simp add: distinct_map)
  ultimately show ?thesis by (intro sort_key_inj_key_eq) simp_all
qed

lemma json_of_strmap_eq_iff:
  assumes "nm_wf a" and "nm_wf b"
  shows "json_of_strmap a = json_of_strmap b \<longleftrightarrow> (a = None \<longleftrightarrow> b = None) \<and> nm_get a = nm_get b"
proof (cases "a = None \<or> b = None")
  case True
  then show ?thesis by (auto simp: json_of_strmap_def split: option.splits)
next
  case False
  then obtain m m' where m: "a = Some m" "b = Some m'" by auto
  have inj: "inj (\<lambda>(k :: string, v). (k, JStr v))" by (auto simp: inj_def)
  have "json_of_strmap a = json_of_strmap b \<longleftrightarrow> sort_key fst m = sort_key fst m'"
    using inj by (simp add: m json_of_strmap_def)
  also have "\<dots> \<longleftrightarrow> gm_get m = gm_get m'"
  proof
    assume "sort_key fst m = sort_key fst m'"
    then have "mset (sort_key fst m) = mset (sort_key fst m')" by simp
    then have "mset m = mset m'" by simp
    then show "gm_get m = gm_get m'" using assms by (intro gm_same_get) (simp_all add: m gm_same_def)
  next
    assume "gm_get m = gm_get m'"
    then show "sort_key fst m = sort_key fst m'" using assms by (intro sort_key_fst_unique) (simp_all add: m)
  qed
  finally show ?thesis by (simp add: m)
qed

lemma json_of_strmap_sorted:
  "nm_wf (Some m) \<Longrightarrow> json_of_strmap (Some (sorted_selector (Some m))) = json_of_strmap (Some m)"
  by (subst json_of_strmap_eq_iff) (simp_all add: sorted_selector_get)

section \<open>Properties\<close>

definition collision :: "string \<Rightarrow> string \<Rightarrow> bool" where
  "collision x y \<longleftrightarrow> x \<noteq> y \<and> Sum256 x = Sum256 y"

definition utf8_map :: "strmap \<Rightarrow> bool" where
  "utf8_map m \<longleftrightarrow> (\<forall>(k, v) \<in> set (nm_list m). valid_utf8 k \<and> valid_utf8 v)"

definition utf8_slice :: "strslice \<Rightarrow> bool" where
  "utf8_slice xs \<longleftrightarrow> (\<forall>x \<in> set (sl_list xs). valid_utf8 x)"

lemma fields_ok_iff: "fields_ok kvs \<longleftrightarrow> (\<forall>(k, j) \<in> set kvs. valid_utf8 k \<and> json_ok j)"
  by (induction kvs) auto

lemma elems_ok_iff: "elems_ok js \<longleftrightarrow> (\<forall>j \<in> set js. json_ok j)"
  by (induction js) auto

lemma json_ok_strmap: "utf8_map m \<Longrightarrow> json_ok (json_of_strmap m)"
  by (auto simp: json_of_strmap_def utf8_map_def fields_ok_iff split: option.split)

lemma json_ok_strslice: "utf8_slice xs \<Longrightarrow> json_ok (json_of_strslice xs)"
  by (auto simp: json_of_strslice_def utf8_slice_def elems_ok_iff split: option.split)

lemma digest_eq_iff:
  assumes "json_ok a" and "json_ok b"
  shows "EncodeToString (Sum256 (encode a)) = EncodeToString (Sum256 (encode b)) \<longleftrightarrow>
    a = b \<or> collision (encode a) (encode b)"
proof -
  have "EncodeToString (Sum256 (encode a)) = EncodeToString (Sum256 (encode b)) \<longleftrightarrow>
      Sum256 (encode a) = Sum256 (encode b)" by (rule iffI) (rule EncodeToString_inj, simp_all)
  moreover have "encode a = encode b \<longleftrightarrow> a = b" using encode_inj [OF assms] by blast
  ultimately show ?thesis by (auto simp: collision_def)
qed

lemma ComputeSelectorHash_eq:
  assumes "nm_wf a"
  shows "ComputeSelectorHash a =
    (if nm_list a = [] then Inr [] else Inr (EncodeToString (Sum256 (encode (json_of_strmap a)))))"
proof (cases a)
  case None
  then show ?thesis by (simp add: ComputeSelectorHash_def)
next
  case (Some m)
  then show ?thesis
    using assms json_of_strmap_sorted [of m] by (simp add: ComputeSelectorHash_def Marshal_def)
qed

text \<open>
  C35: the selector hash identifies the selector. It never fails, does not depend on the order in
  which the map is visited, is empty for an empty selector and 64 characters long otherwise; two
  selectors have the same hash exactly if they are the same map or their JSON texts are a
  collision of SHA-256.
\<close>

theorem ComputeSelectorHash_identifies_selector:
  assumes wf: "nm_wf a" "nm_wf b" and utf8: "utf8_map a" "utf8_map b"
  shows "(\<exists>h. ComputeSelectorHash a = Inr h \<and> length h = (if nm_len a = 0 then 0 else 64)) \<and>
    (ComputeSelectorHash a = ComputeSelectorHash b \<longleftrightarrow>
      nm_get a = nm_get b \<or>
      nm_len a > 0 \<and> nm_len b > 0 \<and> collision (encode (json_of_strmap a)) (encode (json_of_strmap b)))"
proof (rule conjI)
  show "\<exists>h. ComputeSelectorHash a = Inr h \<and> length h = (if nm_len a = 0 then 0 else 64)"
    by (simp add: ComputeSelectorHash_eq [OF wf(1)])
  have empty: "nm_get x = Map.empty \<longleftrightarrow> nm_list x = []" for x :: strmap
    by simp
  have nonempty: "EncodeToString (Sum256 x) \<noteq> []" for x
  proof
    assume "EncodeToString (Sum256 x) = []"
    then have "length (EncodeToString (Sum256 x)) = 0" by simp
    then show False by (simp only: length_EncodeToString length_Sum256)
  qed
  show "ComputeSelectorHash a = ComputeSelectorHash b \<longleftrightarrow>
      nm_get a = nm_get b \<or>
      nm_len a > 0 \<and> nm_len b > 0 \<and> collision (encode (json_of_strmap a)) (encode (json_of_strmap b))"
  proof (cases "nm_list a = [] \<or> nm_list b = []")
    case True
    then have "nm_get a = nm_get b \<longleftrightarrow> nm_list a = [] \<and> nm_list b = []"
    proof
      assume "nm_list a = []"
      then show ?thesis using empty [of b] by (auto dest: sym)
    next
      assume "nm_list b = []"
      then show ?thesis using empty [of a] by auto
    qed
    moreover have "ComputeSelectorHash a = ComputeSelectorHash b \<longleftrightarrow> nm_list a = [] \<and> nm_list b = []"
      using True nonempty [of "encode (json_of_strmap a)"] nonempty [of "encode (json_of_strmap b)", symmetric]
      by (auto simp: ComputeSelectorHash_eq wf)
    moreover have "\<not> (nm_len a > 0 \<and> nm_len b > 0)" using True by auto
    ultimately show ?thesis by blast
  next
    case False
    have "a \<noteq> None" using False by (cases a) simp_all
    moreover have "b \<noteq> None" using False by (cases b) simp_all
    ultimately have same: "json_of_strmap a = json_of_strmap b \<longleftrightarrow> nm_get a = nm_get b"
      using json_of_strmap_eq_iff [OF wf] by blast
    have pos: "nm_len a > 0" "nm_len b > 0" using False by simp_all
    have "ComputeSelectorHash a = ComputeSelectorHash b \<longleftrightarrow>
        EncodeToString (Sum256 (encode (json_of_strmap a))) = EncodeToString (Sum256 (encode (json_of_strmap b)))"
      using False by (simp add: ComputeSelectorHash_eq wf)
    then show ?thesis
      unfolding digest_eq_iff [OF json_ok_strmap [OF utf8(1)] json_ok_strmap [OF utf8(2)]] same
      using pos by blast
  qed
qed

theorem ComputeSelectorHash_identifies_selector_witness:
  "ComputeSelectorHash (Some [(''b'', ''2''), (''a'', ''1'')]) = ComputeSelectorHash (Some [(''a'', ''1''), (''b'', ''2'')])"
proof -
  let ?a = "Some [(''b'', ''2''), (''a'', ''1'')]" and ?b = "Some [(''a'', ''1''), (''b'', ''2'')]"
  have "nm_wf ?a" "nm_wf ?b" by simp_all
  moreover have "utf8_map ?a" "utf8_map ?b" by (simp_all add: utf8_map_def decode_rune_def Let_def case_prod_unfold rune_error_def)
  moreover have "nm_get ?a = nm_get ?b" by (rule ext) auto
  ultimately show ?thesis
    using ComputeSelectorHash_identifies_selector [of ?a ?b] by blast
qed

definition same_core :: "DnsPolicySpec \<Rightarrow> DnsPolicySpec \<Rightarrow> bool" where
  "same_core a b \<longleftrightarrow>
     (TargetSelector a = None \<longleftrightarrow> TargetSelector b = None) \<and>
     nm_get (TargetSelector a) = nm_get (TargetSelector b) \<and>
     (BlockList a = None \<longleftrightarrow> BlockList b = None) \<and>
     mset (sl_list (BlockList a)) = mset (sl_list (BlockList b))"

definition spec_text :: "DnsPolicySpec \<Rightarrow> string" where
  "spec_text spec =
     encode (json_of_normalized
       \<lparr>normTargetSelector = TargetSelector spec, normBlockList = map_option sort (BlockList spec)\<rparr>)"

lemma ComputeSpecHash_eq:
  assumes "nm_wf (TargetSelector spec)"
  shows "ComputeSpecHash spec =
    (Inr (EncodeToString (Sum256 (spec_text spec))), spec\<lparr>BlockList := map_option sort (BlockList spec)\<rparr>)"
proof -
  have sorted: "json_of_strmap (Some (sorted_selector (Some m))) = json_of_strmap (Some m)"
    if "TargetSelector spec = Some m" for m
    using assms that by (intro json_of_strmap_sorted) simp
  have "spec = spec\<lparr>BlockList := None\<rparr>" if "BlockList spec = None"
    using that by (cases spec) simp
  then show ?thesis
    using sorted
    by (cases "TargetSelector spec"; cases "BlockList spec")
      (simp_all add: ComputeSpecHash_def spec_text_def Marshal_def json_of_normalized_def)
qed

lemma json_of_strslice_eq_iff: "json_of_strslice xs = json_of_strslice ys \<longleftrightarrow> xs = ys"
proof -
  have "inj JStr" by (simp add: inj_def)
  then show ?thesis by (auto simp: json_of_strslice_def split: option.split)
qed

lemma sort_eq_iff_mset: "sort xs = sort ys \<longleftrightarrow> mset xs = mset ys" for xs ys :: "string list"
proof
  assume "sort xs = sort ys"
  then have "mset (sort xs) = mset (sort ys)" by simp
  then show "mset xs = mset ys" by simp
next
  assume "mset xs = mset ys"
  then show "sort xs = sort ys" by (intro properties_for_sort) simp_all
qed

lemma map_option_sort_eq_iff:
  "map_option sort xs = map_option sort ys \<longleftrightarrow>
     (xs = None \<longleftrightarrow> ys = None) \<and> mset (sl_list xs) = mset (sl_list ys)" for xs ys :: strslice
  by (cases xs; cases ys) (simp_all add: sort_eq_iff_mset)

lemma ComputeSpecHash_eq_iff:
  assumes wf: "nm_wf (TargetSelector a)" "nm_wf (TargetSelector b)"
    and utf8: "utf8_map (TargetSelector a)" "utf8_map (TargetSelector b)"
      "utf8_slice (BlockList a)" "utf8_slice (BlockList b)"
  shows "fst (ComputeSpecHash a) = fst (ComputeSpecHash b) \<longleftrightarrow> same_core a b \<or> collision (spec_text a) (spec_text b)"
proof -
  let ?j = "\<lambda>spec. json_of_normalized
    \<lparr>normTargetSelector = TargetSelector spec, normBlockList = map_option sort (BlockList spec)\<rparr>"
  have slice: "utf8_slice (map_option sort xs) = utf8_slice xs" for xs :: strslice
    by (cases xs) (simp_all add: utf8_slice_def)
  have valid: "valid_utf8 ''TargetSelector''" "valid_utf8 ''BlockList''"
    by (simp_all add: decode_rune_def Let_def case_prod_unfold rune_error_def)
  have ok: "json_ok (?j a)" "json_ok (?j b)"
    using utf8 valid by (simp_all add: json_of_normalized_def json_ok_strmap json_ok_strslice slice del: valid_utf8.simps)
  have "?j a = ?j b \<longleftrightarrow> same_core a b"
    using json_of_strmap_eq_iff [OF wf]
    by (simp add: json_of_normalized_def json_of_strslice_eq_iff map_option_sort_eq_iff same_core_def)
  then show ?thesis
    using digest_eq_iff [OF ok] by (simp add: ComputeSpecHash_eq wf spec_text_def)
qed

text \<open>
  C36: the spec hash covers the selector and the block list up to its order and nothing else. It never
  fails; two specs have the same hash exactly if their selectors are the same map and their block
  lists are permutations of each other (nil kept apart from empty), or the hashed texts are a
  collision of SHA-256: subject, dry-run and the DoH settings do not count. The call leaves the
  caller's block list sorted.
\<close>

theorem ComputeSpecHash_covers_selector_and_blocklist:
  assumes "nm_wf (TargetSelector a)" "nm_wf (TargetSelector b)"
    and "utf8_map (TargetSelector a)" "utf8_map (TargetSelector b)"
      "utf8_slice (BlockList a)" "utf8_slice (BlockList b)"
  shows "(fst (ComputeSpecHash a) = fst (ComputeSpecHash b) \<longleftrightarrow>
      same_core a b \<or> collision (spec_text a) (spec_text b)) \<and>
    (\<exists>h. ComputeSpecHash a = (Inr h, a\<lparr>BlockList := map_option sort (BlockList a)\<rparr>) \<and> length h = 64)"
  using ComputeSpecHash_eq_iff [OF assms] by (simp add: ComputeSpecHash_eq assms)

theorem ComputeSpecHash_covers_selector_and_blocklist_witness:
  "fst (ComputeSpecHash (Spec sample_policy)) =
     fst (ComputeSpecHash (Spec sample_policy\<lparr>BlockList := Some [''a.ads.com'', ''b.ads.com'', ''b.ads.com''],
       DryRun := True, Doh := True\<rparr>))"
proof -
  let ?a = "Spec sample_policy"
  let ?b = "?a\<lparr>BlockList := Some [''a.ads.com'', ''b.ads.com'', ''b.ads.com''], DryRun := True, Doh := True\<rparr>"
  have wf: "nm_wf (TargetSelector ?a)" "nm_wf (TargetSelector ?b)" by (simp_all add: sample_policy_def)
  have utf8: "utf8_map (TargetSelector ?a)" "utf8_map (TargetSelector ?b)"
      "utf8_slice (BlockList ?a)" "utf8_slice (BlockList ?b)"
    by (simp_all add: sample_policy_def utf8_map_def utf8_slice_def decode_rune_def Let_def case_prod_unfold
        rune_error_def)
  have "same_core ?a ?b" by (simp add: same_core_def sample_policy_def)
  with ComputeSpecHash_covers_selector_and_blocklist [OF wf utf8] show ?thesis by blast
qed

end
