(* ===== verification/Policy_Wire.thy ===== *)
theory Policy_Wire
  imports Policy_Hash
begin

text \<open>
  The spec of a policy on the wire: what the struct tags of \<^verbatim>\<open>DnsPolicySpec\<close>
  (\<^verbatim>\<open>controller/api/v1alpha1/dnspolicy_types.go\<close>) make of it in JSON, and how it is read back. Every
  field is \<^verbatim>\<open>omitempty\<close>: a false flag, a nil and an empty map or slice leave no trace in the text, so
  an empty one comes back as nil. The system model stores objects as they are sent; this theory
  shows that nothing that the controller looks at depends on the difference, and that the spec
  hash does.
\<close>

section \<open>Writing\<close>

definition omitempty :: "bool \<Rightarrow> string \<Rightarrow> json \<Rightarrow> (string \<times> json) list" where
  "omitempty is_empty name j = (if is_empty then [] else [(name, j)])"

definition spec_fields :: "DnsPolicySpec \<Rightarrow> (string \<times> json) list" where
  "spec_fields sp =
     omitempty (nm_len (TargetSelector sp) = 0) ''targetSelector'' (json_of_strmap (TargetSelector sp)) @
     omitempty (length (sl_list (BlockList sp)) = 0) ''blockList'' (json_of_strslice (BlockList sp)) @
     omitempty (nm_len (Subject sp) = 0) ''subject'' (json_of_strmap (Subject sp)) @
     omitempty (\<not> DryRun sp) ''dryrun'' (JBool (DryRun sp)) @
     omitempty (\<not> Doh sp) ''doh'' (JBool (Doh sp)) @
     omitempty (nm_len (DohTlsSecrets sp) = 0) ''dohTlsSecrets'' (json_of_strmap (DohTlsSecrets sp))"

definition json_of_spec :: "DnsPolicySpec \<Rightarrow> json" where
  "json_of_spec sp = JObj (spec_fields sp)"

section \<open>Reading\<close>

text \<open>A field that is missing or null keeps its zero value, one of another type is an error (\<open>None\<close>).\<close>

primrec put_strings :: "(string \<times> json) list \<Rightarrow> (string, string) gomap \<Rightarrow> (string, string) gomap option" where
  "put_strings [] m = Some m"
| "put_strings (kv # rest) m =
     (case snd kv of
        JStr v \<Rightarrow> put_strings rest (gm_put (fst kv) v m)
      | JNull \<Rightarrow> put_strings rest (gm_put (fst kv) [] m)
      | _ \<Rightarrow> None)"

primrec get_strings :: "json list \<Rightarrow> string list option" where
  "get_strings [] = Some []"
| "get_strings (j # rest) =
     (case j of
        JStr s \<Rightarrow> map_option (\<lambda>ss. s # ss) (get_strings rest)
      | JNull \<Rightarrow> map_option (\<lambda>ss. [] # ss) (get_strings rest)
      | _ \<Rightarrow> None)"

fun map_field :: "json option \<Rightarrow> strmap option" where
  "map_field None = Some None"
| "map_field (Some JNull) = Some None"
| "map_field (Some (JObj kvs)) = map_option Some (put_strings kvs [])"
| "map_field (Some _) = None"

fun slice_field :: "json option \<Rightarrow> strslice option" where
  "slice_field None = Some None"
| "slice_field (Some JNull) = Some None"
| "slice_field (Some (JArr js)) = map_option Some (get_strings js)"
| "slice_field (Some _) = None"

fun bool_field :: "json option \<Rightarrow> bool option" where
  "bool_field None = Some False"
| "bool_field (Some JNull) = Some False"
| "bool_field (Some (JBool b)) = Some b"
| "bool_field (Some _) = None"

definition spec_of_fields :: "(string \<times> json) list \<Rightarrow> DnsPolicySpec option" where
  "spec_of_fields kvs =
     (case (map_field (map_of kvs ''targetSelector''), slice_field (map_of kvs ''blockList''),
            map_field (map_of kvs ''subject''), bool_field (map_of kvs ''dryrun''),
            bool_field (map_of kvs ''doh''), map_field (map_of kvs ''dohTlsSecrets'')) of
        (Some ts, Some bl, Some sub, Some dry, Some doh, Some sec) \<Rightarrow>
          Some \<lparr>TargetSelector = ts, BlockList = bl, Subject = sub, DryRun = dry, Doh = doh, DohTlsSecrets = sec\<rparr>
      | _ \<Rightarrow> None)"

definition read_spec :: "string \<Rightarrow> DnsPolicySpec option" where
  "read_spec txt = (case parse txt of Some (JObj kvs) \<Rightarrow> spec_of_fields kvs | _ \<Rightarrow> None)"

section \<open>What comes back\<close>

definition nil_if_empty :: "strmap \<Rightarrow> strmap" where
  "nil_if_empty m = (if nm_list m = [] then None else Some (sort_key fst (nm_list m)))"

definition on_arrival :: "DnsPolicySpec \<Rightarrow> DnsPolicySpec" where
  "on_arrival sp =
     sp\<lparr>TargetSelector := nil_if_empty (TargetSelector sp),
        BlockList := (if sl_list (BlockList sp) = [] then None else BlockList sp),
        Subject := nil_if_empty (Subject sp), DohTlsSecrets := nil_if_empty (DohTlsSecrets sp)\<rparr>"

lemma update_new: "k \<notin> fst ` set m \<Longrightarrow> gm_put k v m = m @ [(k, v)]"
  by (induction m) auto

lemma put_strings_map:
  "gm_wf (m @ kvs) \<Longrightarrow> put_strings (map (\<lambda>(k, v). (k, JStr v)) kvs) m = Some (m @ kvs)"
proof (induction kvs arbitrary: m)
  case (Cons kv kvs)
  then have "gm_put (fst kv) (snd kv) m = m @ [kv]" by (cases kv) (simp add: update_new)
  with Cons show ?case by (cases kv) simp
qed simp

lemma get_strings_map: "get_strings (map JStr ss) = Some ss"
  by (induction ss) simp_all

lemma map_field_written:
  assumes "nm_wf m"
  shows "map_field (if nm_len m = 0 then None else Some (json_of_strmap m)) = Some (nil_if_empty m)"
proof (cases m)
  case (Some kvs)
  have "gm_wf (sort_key fst kvs)" using assms Some by (simp add: distinct_map) 
  then have "put_strings (map (\<lambda>(k, v). (k, JStr v)) (sort_key fst kvs)) [] = Some (sort_key fst kvs)"
    using put_strings_map [of "[]" "sort_key fst kvs"] by simp
  then show ?thesis by (simp add: Some json_of_strmap_def nil_if_empty_def)
qed (simp add: nil_if_empty_def)

lemma slice_field_written:
  "slice_field (if length (sl_list xs) = 0 then None else Some (json_of_strslice xs)) =
     Some (if sl_list xs = [] then None else xs)"
  by (cases xs) (simp_all add: json_of_strslice_def get_strings_map)

lemma map_of_omitempty:
  "map_of (omitempty e name j @ rest) k = (if \<not> e \<and> k = name then Some j else map_of rest k)"
  "map_of (omitempty e name j) k = (if \<not> e \<and> k = name then Some j else None)"
  by (simp_all add: omitempty_def)

lemma spec_fields_get:
  "map_of (spec_fields sp) ''targetSelector'' =
     (if nm_len (TargetSelector sp) = 0 then None else Some (json_of_strmap (TargetSelector sp)))"
  "map_of (spec_fields sp) ''blockList'' =
     (if length (sl_list (BlockList sp)) = 0 then None else Some (json_of_strslice (BlockList sp)))"
  "map_of (spec_fields sp) ''subject'' = (if nm_len (Subject sp) = 0 then None else Some (json_of_strmap (Subject sp)))"
  "map_of (spec_fields sp) ''dryrun'' = (if \<not> DryRun sp then None else Some (JBool (DryRun sp)))"
  "map_of (spec_fields sp) ''doh'' = (if \<not> Doh sp then None else Some (JBool (Doh sp)))"
  "map_of (spec_fields sp) ''dohTlsSecrets'' =
     (if nm_len (DohTlsSecrets sp) = 0 then None else Some (json_of_strmap (DohTlsSecrets sp)))"
  by (simp_all add: spec_fields_def map_of_omitempty del: map_of_append)

lemma spec_of_written:
  assumes "spec_wf sp"
  shows "spec_of_fields (spec_fields sp) = Some (on_arrival sp)"
proof -
  have flag: "bool_field (if \<not> b then None else Some (JBool b)) = Some b" for b by simp
  have wf: "nm_wf (TargetSelector sp)" "nm_wf (Subject sp)" "nm_wf (DohTlsSecrets sp)"
    using assms by (simp_all add: spec_wf_def)
  show ?thesis
    unfolding spec_of_fields_def spec_fields_get flag slice_field_written wf [THEN map_field_written]
    by (simp add: on_arrival_def)
qed

definition utf8_spec :: "DnsPolicySpec \<Rightarrow> bool" where
  "utf8_spec sp \<longleftrightarrow> utf8_map (TargetSelector sp) \<and> utf8_slice (BlockList sp) \<and> utf8_map (Subject sp) \<and>
     utf8_map (DohTlsSecrets sp)"

lemma spec_names_utf8:
  "valid_utf8 ''targetSelector''" "valid_utf8 ''blockList''" "valid_utf8 ''subject''" "valid_utf8 ''dryrun''"
  "valid_utf8 ''doh''" "valid_utf8 ''dohTlsSecrets''"
  by (simp_all add: decode_rune_def Let_def case_prod_unfold rune_error_def)

lemma json_ok_spec:
  assumes "utf8_spec sp"
  shows "json_ok (json_of_spec sp)"
  using assms spec_names_utf8
  by (auto simp: json_of_spec_def spec_fields_def omitempty_def fields_ok_iff utf8_spec_def json_ok_strmap
      json_ok_strslice simp del: valid_utf8.simps split: if_splits)

lemma read_written: "spec_wf sp \<Longrightarrow> utf8_spec sp \<Longrightarrow> read_spec (encode (json_of_spec sp)) = Some (on_arrival sp)"
  by (simp add: read_spec_def parse_encode_bare json_ok_spec) (simp add: json_of_spec_def spec_of_written)

lemma nil_if_empty_None [simp]: "nil_if_empty m = None \<longleftrightarrow> nm_list m = []"
  by (simp add: nil_if_empty_def)

lemma nil_if_empty_wf [simp]: "nm_wf m \<Longrightarrow> nm_wf (nil_if_empty m)"
  by (simp add: nil_if_empty_def distinct_map)

lemma nil_if_empty_get [simp]:
  assumes "nm_wf m"
  shows "nm_get (nil_if_empty m) = nm_get m"
proof (cases "nm_list m = []")
  case False
  have "gm_get (nm_list m) = gm_get (sort_key fst (nm_list m))"
    using assms by (intro gm_same_get) (simp_all add: gm_same_def)
  with False show ?thesis by (simp add: nil_if_empty_def)
qed (simp add: nil_if_empty_def)

lemma same_core_arrival:
  assumes "spec_wf sp"
  shows "same_core (on_arrival sp) sp \<longleftrightarrow> TargetSelector sp \<noteq> Some [] \<and> BlockList sp \<noteq> Some []"
  using assms by (cases "TargetSelector sp"; cases "BlockList sp") (simp_all add: same_core_def on_arrival_def spec_wf_def)

section \<open>Properties\<close>

text \<open>
  C37: a spec survives the way to the API server and back: the text that is written is always read, and
  the selector, the subject and the secrets are the same maps, the block list is the same list, and
  the flags are the same. The only loss is that an empty map or slice comes back as nil; the spec hash sees
  it: it is the same before and after exactly if neither the selector nor the block list was empty
  without being nil, or the hashed texts are a collision of SHA-256.
\<close>

theorem spec_survives_the_wire:
  assumes "spec_wf sp" and "utf8_spec sp"
  shows "\<exists>sp'. read_spec (encode (json_of_spec sp)) = Some sp' \<and> spec_wf sp' \<and>
    nm_get (TargetSelector sp') = nm_get (TargetSelector sp) \<and> sl_list (BlockList sp') = sl_list (BlockList sp) \<and>
    nm_get (Subject sp') = nm_get (Subject sp) \<and> nm_get (DohTlsSecrets sp') = nm_get (DohTlsSecrets sp) \<and>
    DryRun sp' = DryRun sp \<and> Doh sp' = Doh sp \<and>
    (fst (ComputeSpecHash sp') = fst (ComputeSpecHash sp) \<longleftrightarrow>
       TargetSelector sp \<noteq> Some [] \<and> BlockList sp \<noteq> Some [] \<or> collision (spec_text sp') (spec_text sp))"
proof (intro exI conjI)
  show "read_spec (encode (json_of_spec sp)) = Some (on_arrival sp)" using assms by (rule read_written)
  have "utf8_map (TargetSelector (on_arrival sp))" "utf8_slice (BlockList (on_arrival sp))"
    using assms(2) by (auto simp: utf8_spec_def on_arrival_def nil_if_empty_def utf8_map_def utf8_slice_def)
  then show "fst (ComputeSpecHash (on_arrival sp)) = fst (ComputeSpecHash sp) \<longleftrightarrow>
       TargetSelector sp \<noteq> Some [] \<and> BlockList sp \<noteq> Some [] \<or> collision (spec_text (on_arrival sp)) (spec_text sp)"
    using assms ComputeSpecHash_eq_iff [of "on_arrival sp" sp] same_core_arrival [OF assms(1)]
    by (simp add: utf8_spec_def spec_wf_def on_arrival_def)
qed (use assms(1) in \<open>simp_all add: on_arrival_def spec_wf_def\<close>)

theorem spec_survives_the_wire_witness:
  "\<exists>sp. read_spec (encode (json_of_spec (Spec sample_policy))) = Some sp \<and>
     nm_get (TargetSelector sp) = [''app'' \<mapsto> ''frontend''] \<and>
     fst (ComputeSpecHash sp) = fst (ComputeSpecHash (Spec sample_policy))"
proof -
  let ?sp = "Spec sample_policy"
  have wf: "spec_wf ?sp" by (simp add: sample_policy_def spec_wf_def)
  have utf8: "utf8_spec ?sp"
    by (simp add: sample_policy_def utf8_spec_def utf8_map_def utf8_slice_def decode_rune_def Let_def case_prod_unfold
        rune_error_def)
  have "TargetSelector ?sp \<noteq> Some []" "BlockList ?sp \<noteq> Some []" "nm_get (TargetSelector ?sp) = [''app'' \<mapsto> ''frontend'']"
    by (simp_all add: sample_policy_def)
  with spec_survives_the_wire [OF wf utf8] show ?thesis by metis
qed

end
