(* ===== verification/Webhook.thy ===== *)
theory Webhook
  imports Go_Http "HOL-Library.Sublist"
begin

text \<open>
  \<^verbatim>\<open>webhook/pkg/webhook\<close>: the admission webhook that points the DNS configuration of annotated
  deployments to the DNS service. The Kubernetes client, the decoder of admission reviews and the
  (un)marshalling of the Kubernetes types are parameters, the fields of \<open>WebhookEnv\<close>; of the
  Kubernetes types the records have the fields that the source reads or writes. Reading a field
  through a nil pointer panics: the result of a handler is an \<open>outcome\<close>. The second half gives the
  JSON patch its meaning (RFC 6902, the \<open>add\<close> operation on object members).
\<close>

datatype 'a outcome = Panic | Done 'a

record Deployment =
  DepNamespace :: string
  DepName :: string
  Annotations :: strmap
  HostNetwork :: bool

record AdmissionRequest =
  ReqUID :: string
  ObjectRaw :: string

record AdmissionResponse =
  RespUID :: string
  Allowed :: bool
  ResultMessage :: "string option"
  Patch :: "string option"
  PatchType :: "string option"

record AdmissionReview =
  ReviewAPIVersion :: string
  ReviewKind :: string
  ReviewRequest :: "AdmissionRequest option"
  ReviewResponse :: "AdmissionResponse option"

record WebhookEnv =
  getService :: "string \<Rightarrow> string \<Rightarrow> string + string"
  decodeReview :: "string \<Rightarrow> string option \<times> AdmissionReview"
  unmarshalDeployment :: "string \<Rightarrow> string + Deployment"
  marshalReview :: "AdmissionReview \<Rightarrow> string + string"

record Server =
  dnsServiceName :: string
  dnsServiceNamespace :: string

record patchOperation =
  Op :: string
  PatchPath :: string
  Value :: "json option"

section \<open>Operations\<close>

definition dashDnsAnnotation :: string where
  "dashDnsAnnotation = ''dasdns.io/watch''"

definition HOST_NETWORK_NOT_ALLOWED :: string where
  "HOST_NETWORK_NOT_ALLOWED =
     ''The Spec.Template.Spec.HostNetwork cannot be true according to the DnsPolicies''"

text \<open>
  \<^verbatim>\<open>os.Getenv\<close> is an argument, as are the results of the two calls that set up the client; an
  error there is fatal.
\<close>

definition NewServer :: "(string \<Rightarrow> string) \<Rightarrow> string option \<Rightarrow> string option \<Rightarrow> string + Server" where
  "NewServer getenv configErr clientErr =
     (let name = (if getenv ''DNS_SERVICE_NAME'' = [] then ''kube-dns'' else getenv ''DNS_SERVICE_NAME'');
          namespace = (if getenv ''DNS_SERVICE_NAMESPACE'' = [] then ''kube-system''
                       else getenv ''DNS_SERVICE_NAMESPACE'')
      in case configErr of
           Some err \<Rightarrow> Inl (''Failed to create in-cluster config: '' @ err)
         | None \<Rightarrow>
             (case clientErr of
                Some err \<Rightarrow> Inl (''Failed to create Kubernetes client: '' @ err)
              | None \<Rightarrow> Inr \<lparr>dnsServiceName = name, dnsServiceNamespace = namespace\<rparr>))"

definition getDNSServiceIP :: "WebhookEnv \<Rightarrow> Server \<Rightarrow> string + string" where
  "getDNSServiceIP env s =
     (case getService env (dnsServiceNamespace s) (dnsServiceName s) of
        Inl err \<Rightarrow>
          Inl (''failed to get DNS service '' @ dnsServiceNamespace s @ ''/'' @ dnsServiceName s @ '': '' @ err)
      | Inr clusterIP \<Rightarrow>
          if clusterIP = [] \<or> clusterIP = ''None''
          then Inl (''DNS service '' @ dnsServiceNamespace s @ ''/'' @ dnsServiceName s @
                 '' does not have a valid ClusterIP'')
          else Inr clusterIP)"

definition shouldAdjustDnsConfig :: "Deployment \<Rightarrow> bool" where
  "shouldAdjustDnsConfig deployment =
     (if Annotations deployment = None then False
      else case nm_get (Annotations deployment) dashDnsAnnotation of
             Some value \<Rightarrow> value = ''true''
           | None \<Rightarrow> False)"

definition json_of_patch :: "patchOperation \<Rightarrow> json" where
  "json_of_patch p =
     JObj ([(''op'', JStr (Op p)), (''path'', JStr (PatchPath p))] @
           (case Value p of Some v \<Rightarrow> [(''value'', v)] | None \<Rightarrow> []))"

definition dnsConfig_json :: "string \<Rightarrow> json" where
  "dnsConfig_json dnsServiceIP =
     JObj [(''nameservers'', JArr [JStr dnsServiceIP]),
           (''searches'', JArr [JStr ''default.svc.cluster.local'', JStr ''svc.cluster.local'',
              JStr ''cluster.local''])]"

definition dns_patches :: "string \<Rightarrow> patchOperation list" where
  "dns_patches dnsServiceIP =
     [\<lparr>Op = ''add'', PatchPath = ''/spec/template/spec/dnsConfig'', Value = Some (dnsConfig_json dnsServiceIP)\<rparr>,
      \<lparr>Op = ''add'', PatchPath = ''/spec/template/spec/dnsPolicy'', Value = Some (JStr ''None'')\<rparr>]"

definition createPatch :: "Deployment \<Rightarrow> string \<Rightarrow> string + string" where
  "createPatch deployment dnsServiceIP =
     (case Marshal (JArr (map json_of_patch (dns_patches dnsServiceIP))) of
        Inl err \<Rightarrow> Inl (''failed to marshal patches: '' @ err)
      | Inr patchBytes \<Rightarrow> Inr patchBytes)"

text \<open>The responses that \<open>mutate\<close> builds: a refusal with a message, and an approval without a patch.\<close>

definition refuse :: "string \<Rightarrow> AdmissionResponse" where
  "refuse msg = \<lparr>RespUID = [], Allowed = False, ResultMessage = Some msg, Patch = None, PatchType = None\<rparr>"

definition allow :: AdmissionResponse where
  "allow = \<lparr>RespUID = [], Allowed = True, ResultMessage = None, Patch = None, PatchType = None\<rparr>"

definition mutate :: "WebhookEnv \<Rightarrow> Server \<Rightarrow> AdmissionReview \<Rightarrow> AdmissionResponse outcome" where
  "mutate env s ar =
     (case ReviewRequest ar of
        None \<Rightarrow> Panic
      | Some req \<Rightarrow>
          (case unmarshalDeployment env (ObjectRaw req) of
             Inl err \<Rightarrow> Done (refuse err)
           | Inr deployment \<Rightarrow>
               if \<not> shouldAdjustDnsConfig deployment then Done allow
               else (case getDNSServiceIP env s of
                       Inl err \<Rightarrow> Done (refuse (''Failed to fetch DNS service IP: '' @ err))
                     | Inr dnsServiceIP \<Rightarrow>
                         if HostNetwork deployment then Done (refuse HOST_NETWORK_NOT_ALLOWED)
                         else (case (if shouldAdjustDnsConfig deployment
                                     then createPatch deployment dnsServiceIP else Inr []) of
                                 Inl err \<Rightarrow> Done (refuse err)
                               | Inr patchBytes \<Rightarrow>
                                   Done \<lparr>RespUID = [], Allowed = True, ResultMessage = None,
                                         Patch = Some patchBytes, PatchType = Some ''JSONPatch''\<rparr>))))"

text \<open>The review that is sent back: the response with the UID of the request, if there was one.\<close>

definition review_for :: "AdmissionReview \<Rightarrow> AdmissionResponse \<Rightarrow> AdmissionReview" where
  "review_for ar resp =
     \<lparr>ReviewAPIVersion = ''admission.k8s.io/v1'', ReviewKind = ''AdmissionReview'', ReviewRequest = None,
      ReviewResponse = Some (case ReviewRequest ar of
                               Some req \<Rightarrow> resp\<lparr>RespUID := ReqUID req\<rparr>
                             | None \<Rightarrow> resp)\<rparr>"

definition write_review :: "WebhookEnv \<Rightarrow> AdmissionReview \<Rightarrow> ResponseWriter \<Rightarrow> ResponseWriter" where
  "write_review env review w =
     (case marshalReview env review of
        Inl err \<Rightarrow> http_Error (''Could not encode response: '' @ err) StatusInternalServerError w
      | Inr resp \<Rightarrow>
          (case Write resp w of
             (None, w1) \<Rightarrow> w1
           | (Some err, w1) \<Rightarrow>
               http_Error (''Could not write response: '' @ err) StatusInternalServerError w1))"

definition ServeHTTP :: "WebhookEnv \<Rightarrow> Server \<Rightarrow> Request \<Rightarrow> ResponseWriter \<Rightarrow> ResponseWriter outcome" where
  "ServeHTTP env s r w =
     (let body = (case reqBody r of Some (Some data) \<Rightarrow> data | _ \<Rightarrow> [])
      in if length body = 0 then Done (http_Error ''Empty body'' StatusBadRequest w)
         else if reqContentType r \<noteq> ''application/json''
         then Done (http_Error ''Invalid content type'' StatusBadRequest w)
         else (case decodeReview env body of
                 (Some err, ar) \<Rightarrow> Done (write_review env (review_for ar (refuse err)) w)
               | (None, ar) \<Rightarrow>
                   (case mutate env s ar of
                      Panic \<Rightarrow> Panic
                    | Done admissionResponse \<Rightarrow> Done (write_review env (review_for ar admissionResponse) w))))"

section \<open>The meaning of a JSON patch\<close>

text \<open>A JSON pointer without escapes, as the list of its tokens.\<close>

function pointer :: "string \<Rightarrow> string list" where
  "pointer [] = []"
| "pointer (c # cs) =
     (if c = CHR ''/'' then takeWhile (\<lambda>x. x \<noteq> CHR ''/'') cs # pointer (dropWhile (\<lambda>x. x \<noteq> CHR ''/'') cs)
      else [])"
  by pat_completeness auto
termination
  by (relation "measure length") (auto simp: le_imp_less_Suc length_dropWhile_le)

fun json_get :: "string list \<Rightarrow> json \<Rightarrow> json option" where
  "json_get [] d = Some d"
| "json_get (k # ks) (JObj kvs) = (case map_of kvs k of None \<Rightarrow> None | Some d \<Rightarrow> json_get ks d)"
| "json_get (k # ks) d = None"

text \<open>The parent of the target must be an object that exists; an existing member is replaced.\<close>

fun json_add :: "string list \<Rightarrow> json \<Rightarrow> json \<Rightarrow> json option" where
  "json_add [] v d = Some v"
| "json_add [k] v (JObj kvs) = Some (JObj (AList.update k v kvs))"
| "json_add (k # ks) v (JObj kvs) =
     (case map_of kvs k of
        None \<Rightarrow> None
      | Some d \<Rightarrow> map_option (\<lambda>d'. JObj (AList.update k d' kvs)) (json_add ks v d))"
| "json_add (k # ks) v d = None"

definition apply_op :: "json \<Rightarrow> json \<Rightarrow> json option" where
  "apply_op op doc =
     (case op of
        JObj kvs \<Rightarrow>
          (case (map_of kvs ''op'', map_of kvs ''path'', map_of kvs ''value'') of
             (Some (JStr o'), Some (JStr p), Some v) \<Rightarrow>
               (if o' = ''add'' then json_add (pointer p) v doc else None)
           | _ \<Rightarrow> None)
      | _ \<Rightarrow> None)"

fun apply_ops :: "json list \<Rightarrow> json \<Rightarrow> json option" where
  "apply_ops [] doc = Some doc"
| "apply_ops (op # ops) doc = (case apply_op op doc of None \<Rightarrow> None | Some doc' \<Rightarrow> apply_ops ops doc')"

definition apply_patch :: "string \<Rightarrow> json \<Rightarrow> json option" where
  "apply_patch patch doc = (case parse patch of Some (JArr ops) \<Rightarrow> apply_ops ops doc | _ \<Rightarrow> None)"

lemma json_get_append:
  "json_get (ks @ ls) d = (case json_get ks d of None \<Rightarrow> None | Some d' \<Rightarrow> json_get ls d')"
  by (induction ks d rule: json_get.induct) (auto split: option.split)

lemma json_add_member:
  assumes "json_get base d = Some (JObj kvs)"
  shows "\<exists>d'. json_add (base @ [k]) v d = Some d' \<and> json_get base d' = Some (JObj (AList.update k v kvs)) \<and>
    (\<forall>q. q \<parallel> base @ [k] \<longrightarrow> json_get q d' = json_get q d)"
  using assms
proof (induction base arbitrary: d)
  case Nil
  then have d: "d = JObj kvs" by simp
  have "json_get q (JObj (AList.update k v kvs)) = json_get q d" if "q \<parallel> [k]" for q
    using that by (cases q) (auto simp: d update_conv' parallel_def)
  then show ?case by (simp add: d)
next
  case (Cons b base)
  then obtain fs e where d: "d = JObj fs" and e: "map_of fs b = Some e" "json_get base e = Some (JObj kvs)"
    by (cases d) (auto split: option.splits)
  from Cons.IH [OF e(2)] obtain e' where e': "json_add (base @ [k]) v e = Some e'"
    "json_get base e' = Some (JObj (AList.update k v kvs))"
    "\<forall>q. q \<parallel> base @ [k] \<longrightarrow> json_get q e' = json_get q e" by blast
  have add: "json_add (b # base @ [k]) v d = Some (JObj (AList.update b e' fs))"
    using e(1) e'(1) by (cases base) (simp_all add: d)
  have "json_get q (JObj (AList.update b e' fs)) = json_get q d" if q: "q \<parallel> b # base @ [k]" for q
  proof (cases q)
    case Nil
    with q show ?thesis by (simp add: parallel_def)
  next
    case (Cons c q')
    show ?thesis
    proof (cases "c = b")
      case True
      with q Cons have "q' \<parallel> base @ [k]" by (auto simp: parallel_def)
      with True Cons e'(3) e(1) show ?thesis by (simp add: d update_conv')
    qed (simp add: Cons d update_conv')
  qed
  with add e'(2) show ?case by (auto simp: update_conv')
qed

section \<open>Properties\<close>

lemma shouldAdjust_iff:
  "shouldAdjustDnsConfig d \<longleftrightarrow> nm_get (Annotations d) ''dasdns.io/watch'' = Some ''true''"
  by (cases "Annotations d") (auto simp: shouldAdjustDnsConfig_def dashDnsAnnotation_def split: option.split)

lemma createPatch_eq:
  "createPatch d ip = Inr (encode (JArr (map json_of_patch (dns_patches ip))))"
  by (simp add: createPatch_def Marshal_def)

text \<open>
  C28: the decision of the webhook. A review with a request is always answered. The deployment is
  allowed exactly if its object can be read and it either does not carry the annotation with value
  true, or does not use the host network and the DNS service has a cluster IP; a patch is attached
  exactly to the allowed deployments with the annotation, and every refusal has a message.
\<close>

theorem mutate_decides:
  assumes "ReviewRequest ar = Some req"
  shows "\<exists>resp. mutate env s ar = Done resp \<and>
    (Allowed resp \<longleftrightarrow> (\<exists>d. unmarshalDeployment env (ObjectRaw req) = Inr d \<and>
       (nm_get (Annotations d) ''dasdns.io/watch'' \<noteq> Some ''true'' \<or>
        \<not> HostNetwork d \<and> (\<exists>ip. getService env (dnsServiceNamespace s) (dnsServiceName s) = Inr ip \<and>
           ip \<noteq> [] \<and> ip \<noteq> ''None'')))) \<and>
    (Patch resp \<noteq> None \<longleftrightarrow> Allowed resp \<and> (\<exists>d. unmarshalDeployment env (ObjectRaw req) = Inr d \<and>
       nm_get (Annotations d) ''dasdns.io/watch'' = Some ''true'')) \<and>
    (ResultMessage resp = None \<longleftrightarrow> Allowed resp)"
  using assms
  by (cases "unmarshalDeployment env (ObjectRaw req)";
      cases "getService env (dnsServiceNamespace s) (dnsServiceName s)")
    (auto simp: mutate_def shouldAdjust_iff getDNSServiceIP_def createPatch_eq allow_def refuse_def)

definition sample_deployment :: "string \<Rightarrow> bool \<Rightarrow> Deployment" where
  "sample_deployment annotation host =
     \<lparr>DepNamespace = ''shop'', DepName = ''cart'', Annotations = Some [(annotation, ''true'')], HostNetwork = host\<rparr>"

definition sample_request :: AdmissionRequest where
  "sample_request = \<lparr>ReqUID = ''u-1'', ObjectRaw = ''{}''\<rparr>"

definition sample_review :: "AdmissionRequest option \<Rightarrow> AdmissionReview" where
  "sample_review req = \<lparr>ReviewAPIVersion = [], ReviewKind = [], ReviewRequest = req, ReviewResponse = None\<rparr>"

definition sample_webhook_env :: "AdmissionRequest option \<Rightarrow> Deployment \<Rightarrow> WebhookEnv" where
  "sample_webhook_env req d =
     \<lparr>getService = (\<lambda>ns n. if ns = ''kube-system'' \<and> n = ''kube-dns'' then Inr ''10.96.0.10'' else Inl ''not found''),
      decodeReview = (\<lambda>_. (None, sample_review req)), unmarshalDeployment = (\<lambda>_. Inr d),
      marshalReview = (\<lambda>r. case ReviewResponse r of Some resp \<Rightarrow> Inr (RespUID resp) | None \<Rightarrow> Inr [])\<rparr>"

definition sample_server :: Server where
  "sample_server = \<lparr>dnsServiceName = ''kube-dns'', dnsServiceNamespace = ''kube-system''\<rparr>"

theorem mutate_decides_witness:
  "\<exists>resp. mutate (sample_webhook_env (Some sample_request) (sample_deployment ''dashdns.io/watch'' True))
      sample_server (sample_review (Some sample_request)) = Done resp \<and> Allowed resp \<and> Patch resp = None"
proof -
  let ?env = "sample_webhook_env (Some sample_request) (sample_deployment ''dashdns.io/watch'' True)"
  have "ReviewRequest (sample_review (Some sample_request)) = Some sample_request" by (simp add: sample_review_def)
  from mutate_decides [OF this, of ?env sample_server] show ?thesis
    by (auto simp: sample_webhook_env_def sample_deployment_def)
qed


definition sample_doc :: json where
  "sample_doc = JObj [(''kind'', JStr ''Deployment''), (''spec'', JObj [(''replicas'', JNum 2),
     (''template'', JObj [(''spec'', JObj [(''dnsPolicy'', JStr ''ClusterFirst'')])])])]"


text \<open>
  C30: the webhook panics exactly on a review without a request: a non-empty JSON body that decodes
  to an admission review whose request is missing makes the handler read through a nil pointer;
  no other request does.
\<close>

theorem ServeHTTP_panics_iff_no_request:
  "ServeHTTP env s r w = Panic \<longleftrightarrow>
     (\<exists>data ar. reqBody r = Some (Some data) \<and> data \<noteq> [] \<and> reqContentType r = ''application/json'' \<and>
        decodeReview env data = (None, ar) \<and> ReviewRequest ar = None)"
proof -
  have panic: "mutate env s ar = Panic \<longleftrightarrow> ReviewRequest ar = None" for ar
    by (simp add: mutate_def split: option.split sum.split)
  then have completed: "mutate env s ar = Done resp \<Longrightarrow> \<exists>req. ReviewRequest ar = Some req" for ar resp
    by (metis not_None_eq outcome.distinct(1))
  show ?thesis
    by (auto simp: ServeHTTP_def Let_def panic dest: completed split: option.splits prod.splits outcome.splits)
qed

text \<open>
  C29: a decodable review with a request is answered with status 200 and a review that carries the
  UID of the request and the decision of the webhook, provided the answer can be marshalled; an
  empty or unreadable body and a wrong content type get status 400.
\<close>

theorem ServeHTTP_answers_review:
  assumes marshal: "\<And>rev. \<exists>bytes. marshalReview env rev = Inr bytes"
  shows "(\<forall>data ar req. reqBody r = Some (Some data) \<and> data \<noteq> [] \<and> reqContentType r = ''application/json'' \<and>
      decodeReview env data = (None, ar) \<and> ReviewRequest ar = Some req \<longrightarrow>
      (\<exists>w resp rev. ServeHTTP env s r (fresh_writer None) = Done w \<and> status_of w = Some 200 \<and>
         marshalReview env rev = Inr (out w) \<and> mutate env s ar = Done resp \<and>
         ReviewResponse rev = Some (resp\<lparr>RespUID := ReqUID req\<rparr>))) \<and>
    (reqBody r \<in> {None, Some None, Some (Some [])} \<or> reqContentType r \<noteq> ''application/json'' \<longrightarrow>
      (\<exists>w. ServeHTTP env s r (fresh_writer None) = Done w \<and> status_of w = Some 400))"
proof (intro conjI allI impI)
  fix data ar req
  assume *: "reqBody r = Some (Some data) \<and> data \<noteq> [] \<and> reqContentType r = ''application/json'' \<and>
      decodeReview env data = (None, ar) \<and> ReviewRequest ar = Some req"
  obtain resp where resp: "mutate env s ar = Done resp"
    using * by (cases "mutate env s ar") (simp_all add: mutate_def split: sum.splits if_splits)
  obtain bytes where bytes: "marshalReview env (review_for ar resp) = Inr bytes" using marshal by blast
  let ?w = "write_review env (review_for ar resp) (fresh_writer None)"
  have "ServeHTTP env s r (fresh_writer None) = Done ?w" using * resp by (simp add: ServeHTTP_def)
  moreover have "status_of ?w = Some 200" "marshalReview env (review_for ar resp) = Inr (out ?w)"
    by (simp_all add: write_review_def bytes Write_def WriteHeader_def status_of_def StatusOK_def)
  moreover have "ReviewResponse (review_for ar resp) = Some (resp\<lparr>RespUID := ReqUID req\<rparr>)"
    using * by (simp add: review_for_def)
  ultimately show "\<exists>w resp rev. ServeHTTP env s r (fresh_writer None) = Done w \<and> status_of w = Some 200 \<and>
         marshalReview env rev = Inr (out w) \<and> mutate env s ar = Done resp \<and>
         ReviewResponse rev = Some (resp\<lparr>RespUID := ReqUID req\<rparr>)" using resp by blast
next
  assume "reqBody r \<in> {None, Some None, Some (Some [])} \<or> reqContentType r \<noteq> ''application/json''"
  then show "\<exists>w. ServeHTTP env s r (fresh_writer None) = Done w \<and> status_of w = Some 400"
    by (auto simp: ServeHTTP_def Let_def status_of_def StatusBadRequest_def split: option.splits)
qed

definition post_review :: Request where
  "post_review = \<lparr>reqMethod = ''POST'', reqPath = ''/mutate'', reqContentType = ''application/json'',
     reqBody = Some (Some ''{}'')\<rparr>"

theorem ServeHTTP_answers_review_witness:
  "\<exists>w. ServeHTTP (sample_webhook_env (Some sample_request) (sample_deployment ''dasdns.io/watch'' False))
       sample_server post_review (fresh_writer None) = Done w \<and> status_of w = Some 200 \<and> out w = ''u-1''"
proof -
  let ?env = "sample_webhook_env (Some sample_request) (sample_deployment ''dasdns.io/watch'' False)"
  have marshal: "\<exists>bytes. marshalReview ?env rev = Inr bytes" for rev
    by (simp add: sample_webhook_env_def split: option.split)
  have "reqBody post_review = Some (Some ''{}'') \<and> ''{}'' \<noteq> [] \<and> reqContentType post_review = ''application/json'' \<and>
      decodeReview ?env ''{}'' = (None, sample_review (Some sample_request)) \<and>
      ReviewRequest (sample_review (Some sample_request)) = Some sample_request"
    by (simp add: post_review_def sample_webhook_env_def sample_review_def)
  with ServeHTTP_answers_review [OF marshal, of post_review sample_server]
  obtain w resp rev where w: "ServeHTTP ?env sample_server post_review (fresh_writer None) = Done w" "status_of w = Some 200"
    "marshalReview ?env rev = Inr (out w)" "ReviewResponse rev = Some (resp\<lparr>RespUID := ReqUID sample_request\<rparr>)"
    by blast
  then have "out w = ''u-1''" by (simp add: sample_webhook_env_def sample_request_def)
  with w show ?thesis by blast
qed

end
