(* ===== verification/Webhook_Main.thy ===== *)
theory Webhook_Main
  imports Webhook Go_Flag
begin

text \<open>
  \<^verbatim>\<open>webhook/cmd/webhook/main.go\<close>: the program around the webhook. \<open>webhook_init\<close> is the \<^verbatim>\<open>init\<close> function
  with its flags, \<open>webhook_setup\<close> the part of \<^verbatim>\<open>main\<close> up to the server, \<open>main_step\<close> what the two
  goroutines do afterwards: the events are the return of \<^verbatim>\<open>ListenAndServeTLS\<close>, a signal and the return
  of \<^verbatim>\<open>Shutdown\<close>, in the order in which they happen. \<^verbatim>\<open>log.Fatalf\<close> ends the program with code 1. The
  environment, the client set-up, the key files and the flags that imported packages register are
  parameters, the fields of \<open>WebhookMainEnv\<close>.
\<close>

record WebhookMainEnv =
  importedFlags :: "flag_decl list"
  getenv :: "string \<Rightarrow> string"
  inClusterConfigErr :: "string option"
  newForConfigErr :: "string option"
  loadX509KeyPair :: "string \<Rightarrow> string \<Rightarrow> string + string"
  webhookEnv :: WebhookEnv

record WebhookFlags =
  port :: int
  certFile :: string
  keyFile :: string

section \<open>Operations\<close>

definition webhook_decls :: "flag_decl list" where
  "webhook_decls =
     [(''port'', IntFlag, IntV 8443),
      (''cert-file'', StringFlag, StrV ''/etc/webhook/certs/tls.crt''),
      (''key-file'', StringFlag, StrV ''/etc/webhook/certs/tls.key'')]"

definition webhook_init :: "WebhookMainEnv \<Rightarrow> string list \<Rightarrow> WebhookFlags process" where
  "webhook_init env args =
     and_then (flag_Vars (importedFlags env @ webhook_decls) NewFlagSet) (\<lambda>fs.
     and_then (Parse fs args) (\<lambda>fs'.
     Continues \<lparr>port = flag_int fs' ''port'', certFile = flag_str fs' ''cert-file'',
                keyFile = flag_str fs' ''key-file''\<rparr>))"

definition healthCheck :: handler where
  "healthCheck r w = snd (Write ''OK'' (WriteHeader StatusOK w))"

definition webhook_serve :: "WebhookEnv \<Rightarrow> Server \<Rightarrow> Request \<Rightarrow> ResponseWriter \<Rightarrow> ResponseWriter outcome" where
  "webhook_serve env s r w =
     (if reqPath r = ''/mutate'' then ServeHTTP env s r w
      else Done (mux_serve [(''/health'', healthCheck)] r w))"

record WebhookHttpServer =
  serverAddr :: string
  serverHandler :: "Request \<Rightarrow> ResponseWriter \<Rightarrow> ResponseWriter outcome"
  serverCertificates :: "string list"
  serverMinVersion :: nat
  serverReadTimeout :: nat
  serverWriteTimeout :: nat

definition VersionTLS12 :: nat where
  "VersionTLS12 = 0x0303"

definition webhook_setup :: "WebhookMainEnv \<Rightarrow> WebhookFlags \<Rightarrow> WebhookHttpServer process" where
  "webhook_setup env flags =
     (case NewServer (getenv env) (inClusterConfigErr env) (newForConfigErr env) of
        Inl _ \<Rightarrow> Exits 1
      | Inr webhookServer \<Rightarrow>
          (case loadX509KeyPair env (certFile flags) (keyFile flags) of
             Inl _ \<Rightarrow> Exits 1
           | Inr cert \<Rightarrow>
               Continues \<lparr>serverAddr = '':'' @ dec_int (port flags),
                          serverHandler = webhook_serve (webhookEnv env) webhookServer,
                          serverCertificates = [cert], serverMinVersion = VersionTLS12,
                          serverReadTimeout = 10, serverWriteTimeout = 10\<rparr>))"

datatype main_phase = Serving | ShuttingDown | Ended nat

datatype main_event = ListenReturns listen_result | SignalReceived | ShutdownReturns "string option"

fun main_step :: "main_phase \<Rightarrow> main_event \<Rightarrow> main_phase" where
  "main_step (Ended code) ev = Ended code"
| "main_step phase (ListenReturns (ListenFailed err)) = Ended 1"
| "main_step phase (ListenReturns ServerClosed) = phase"
| "main_step phase SignalReceived = ShuttingDown"
| "main_step ShuttingDown (ShutdownReturns (Some err)) = Ended 1"
| "main_step ShuttingDown (ShutdownReturns None) = Ended 0"
| "main_step Serving (ShutdownReturns err) = Serving"

definition webhook_main ::
  "WebhookMainEnv \<Rightarrow> string list \<Rightarrow> main_event list \<Rightarrow> (WebhookHttpServer \<times> main_phase) process" where
  "webhook_main env args events =
     and_then (webhook_init env args) (\<lambda>flags.
     and_then (webhook_setup env flags) (\<lambda>server.
     case foldl main_step Serving events of
       Ended code \<Rightarrow> Exits code
     | phase \<Rightarrow> Continues (server, phase)))"

section \<open>Properties\<close>

definition webhook_settings :: "WebhookFlags \<Rightarrow> (string \<times> flag_value) list" where
  "webhook_settings f = [(''port'', IntV (port f)), (''cert-file'', StrV (certFile f)), (''key-file'', StrV (keyFile f))]"

abbreviation webhook_args :: "WebhookFlags \<Rightarrow> string list" where
  "webhook_args f \<equiv> map render_flag (webhook_settings f)"


definition sample_main_env :: "(string \<Rightarrow> string \<Rightarrow> string + string) \<Rightarrow> WebhookMainEnv" where
  "sample_main_env load =
     \<lparr>importedFlags = [(''v'', ExtFlag False (\<lambda>s. s \<in> {''0'', ''1''}), ExtV ''0'')], getenv = (\<lambda>_. []),
      inClusterConfigErr = None, newForConfigErr = None, loadX509KeyPair = load,
      webhookEnv = sample_webhook_env None (sample_deployment ''dasdns.io/watch'' False)\<rparr>"

lemma sample_decls_ok: "decls_ok (importedFlags (sample_main_env load) @ webhook_decls)"
  by (simp add: sample_main_env_def webhook_decls_def decls_ok_def flag_name_ok_def has_kind_def)


text \<open>The phases of the program along its events.\<close>

definition fatal :: "main_event \<Rightarrow> bool" where
  "fatal ev = (case ev of ListenReturns (ListenFailed _) \<Rightarrow> True | _ \<Rightarrow> False)"

definition shutdown_ends :: "main_event \<Rightarrow> bool" where
  "shutdown_ends ev = (case ev of ShutdownReturns _ \<Rightarrow> True | _ \<Rightarrow> False)"

lemma main_step_cases:
  "main_step Serving ev = (if fatal ev then Ended 1 else if ev = SignalReceived then ShuttingDown else Serving)"
  "main_step ShuttingDown ev = (if fatal ev then Ended 1
     else if ev = ShutdownReturns None then Ended 0 else if shutdown_ends ev then Ended 1 else ShuttingDown)"
  by (cases ev; auto simp: fatal_def shutdown_ends_def split: listen_result.split;
      cases "(Serving, ev)" rule: main_step.cases; simp)+

lemma ended_stays: "foldl main_step (Ended code) evs = Ended code"
  by (induction evs) simp_all

lemma first_split_Cons:
  "(\<exists>pre post. e # es = pre @ x # post \<and> (\<forall>y \<in> set pre. Q y) \<and> R post) \<longleftrightarrow>
     e = x \<and> R es \<or> Q e \<and> (\<exists>pre post. es = pre @ x # post \<and> (\<forall>y \<in> set pre. Q y) \<and> R post)"
  (is "?L \<longleftrightarrow> ?R")
proof
  assume ?L
  then obtain pre post where "e # es = pre @ x # post" "\<forall>y \<in> set pre. Q y" "R post" by blast
  then show ?R by (cases pre) auto
next
  assume ?R
  then show ?L by (metis append_Cons append_Nil empty_iff list.set(1) set_ConsD)
qed

lemma shutting_down_ends:
  "foldl main_step ShuttingDown evs = Ended 0 \<longleftrightarrow>
     (\<exists>mid post. evs = mid @ ShutdownReturns None # post \<and> (\<forall>e \<in> set mid. \<not> fatal e \<and> \<not> shutdown_ends e) \<and> True)"
proof (induction evs)
  case (Cons e es)
  show ?case
    unfolding first_split_Cons using Cons
    by (simp add: main_step_cases ended_stays) (auto simp: fatal_def shutdown_ends_def)
qed simp

lemma serving_ends:
  "foldl main_step Serving evs = Ended 0 \<longleftrightarrow>
     (\<exists>pre post. evs = pre @ SignalReceived # post \<and> (\<forall>e \<in> set pre. \<not> fatal e \<and> e \<noteq> SignalReceived) \<and>
        foldl main_step ShuttingDown post = Ended 0)"
proof (induction evs)
  case (Cons e es)
  show ?case
    unfolding first_split_Cons using Cons
    by (simp add: main_step_cases ended_stays) (auto simp: fatal_def)
qed simp

lemma serving_stays:
  "foldl main_step Serving evs = Serving \<longleftrightarrow> (\<forall>e \<in> set evs. \<not> fatal e \<and> e \<noteq> SignalReceived)"
proof -
  have no_return: "foldl main_step ShuttingDown evs \<noteq> Serving" for evs
    by (induction evs) (auto simp: main_step_cases ended_stays)
  show ?thesis by (induction evs) (auto simp: main_step_cases ended_stays no_return)
qed

text \<open>
  C40: how the webhook ends once it is set up. It goes on serving as long as no signal arrives and
  the listener does not fail. It ends with code 0 exactly if a signal arrives, the shutdown it
  starts returns without an error, and the listener does not fail before that.
\<close>

theorem webhook_main_ends_gracefully:
  assumes "webhook_init env args = Continues flags" and "webhook_setup env flags = Continues server"
  shows "(webhook_main env args evs = Continues (server, Serving) \<longleftrightarrow>
      (\<forall>e \<in> set evs. \<not> fatal e \<and> e \<noteq> SignalReceived)) \<and>
    (webhook_main env args evs = Exits 0 \<longleftrightarrow>
      (\<exists>pre mid post. evs = pre @ SignalReceived # mid @ ShutdownReturns None # post \<and>
         (\<forall>e \<in> set pre. \<not> fatal e \<and> e \<noteq> SignalReceived) \<and> (\<forall>e \<in> set mid. \<not> fatal e \<and> \<not> shutdown_ends e)))"
proof -
  have main: "webhook_main env args evs = (case foldl main_step Serving evs of
      Ended code \<Rightarrow> Exits code | phase \<Rightarrow> Continues (server, phase))"
    using assms by (simp add: webhook_main_def)
  have "webhook_main env args evs = Continues (server, Serving) \<longleftrightarrow> foldl main_step Serving evs = Serving"
    "webhook_main env args evs = Exits 0 \<longleftrightarrow> foldl main_step Serving evs = Ended 0"
    unfolding main by (simp_all split: main_phase.split)
  then show ?thesis unfolding serving_stays serving_ends shutting_down_ends by blast
qed

theorem webhook_main_ends_gracefully_witness:
  "webhook_main (sample_main_env (\<lambda>c k. Inr (c @ k))) []
     [SignalReceived, ListenReturns ServerClosed, ShutdownReturns None] = Exits 0"
proof -
  let ?env = "sample_main_env (\<lambda>c k. Inr (c @ k))" and ?f = "\<lparr>port = 8443, certFile = ''/etc/webhook/certs/tls.crt'', keyFile = ''/etc/webhook/certs/tls.key''\<rparr>"
  let ?evs = "[] @ SignalReceived # [ListenReturns ServerClosed] @ ShutdownReturns None # []"
  have init: "webhook_init ?env [] = Continues ?f"
    by (simp add: webhook_init_def sample_main_env_def webhook_decls_def flag_Var_def flag_name_ok_def
        NewFlagSet_def Parse.simps parseOne_def flag_int_def flag_str_def)
  obtain server where ready: "webhook_setup ?env ?f = Continues server"
    by (simp add: webhook_setup_def sample_main_env_def NewServer_def)
  have "\<not> fatal (ListenReturns ServerClosed) \<and> \<not> shutdown_ends (ListenReturns ServerClosed)"
    by (simp add: fatal_def shutdown_ends_def)
  then have "webhook_main ?env [] ?evs = Exits 0"
    using webhook_main_ends_gracefully [OF init ready, of ?evs] by fastforce
  then show ?thesis by simp
qed

end
