(* ===== verification/Spec2Isabelle.thy ===== *)
theory Spec2Isabelle
  imports Concurrent_Workers Convergence Controller_Program Policy_Wire Webhook_Main
begin

text \<open>
  A verification development of the DNS mesh controller (\<^verbatim>\<open>src/controller\<close>) and its admission webhook
  (\<^verbatim>\<open>src/webhook\<close>).

  \<^bold>\<open>The program.\<close> Users create \<^verbatim>\<open>DnsPolicy\<close> objects: a label selector and a list of domains that the
  selected pods must not resolve. The controller watches policies and pods. Two reconcilers keep two
  indexes, of policies and of pods, and a cache that holds for every pod IP the sorted list of its
  blocked domains; an HTTP server hands the cache to the DNS agents. The webhook is a separate
  program: it patches annotated deployments so that their pods use the DNS service.

  \<^bold>\<open>Conventions\<close> (\<open>Go_Prelude\<close>). A Go map is an association list with distinct keys whose order is
  the order in which a \<^verbatim>\<open>range\<close> loop visits it; results hold for every order. Nil maps and slices are
  \<open>None\<close>. Strings are byte strings. Errors are values of a sum or option type, a panic or an exit is
  a value of \<open>outcome\<close> or \<open>process\<close>. Objects that the code shares through pointers are shared by
  passing one state (the cache contains its two indexes), except where aliasing is the point:
  \<open>Go_Slice\<close> has backing arrays in memory, and \<open>Controller_Main\<close> has object references. The Kubernetes
  API, controller-runtime and the clock are parameters (\<open>PolicyEnv\<close>, \<open>PodEnv\<close>, \<open>WebhookEnv\<close>,
  \<open>WebhookMainEnv\<close>, \<open>BootEnv\<close>) with named hypotheses (\<open>env_ok\<close>, \<open>finalizer_laws\<close>, \<open>env_laws\<close>, \<open>reads\<close>,
  \<open>answers\<close>, \<open>scheme_laws\<close>).

  \<^bold>\<open>The library.\<close>
  \<^item> \<open>Go_Prelude\<close>, \<open>Index_Interface\<close>: maps and slices; locales for an index (what a lookup returns after
    an update, for any history) and for a blocklist, interpreted on the code's two indexes and its cache.
  \<^item> \<open>Go_Json\<close>, \<open>Sha256\<close>, \<open>Go_Http\<close>, \<open>Go_Flag\<close>, \<open>Go_Slice\<close>: what the sources use of Go's library: the
    JSON encoder with a parser (\<open>parse_encode\<close>: what is encoded is read back; the parser's fuel is the
    length of its input, which that lemma shows to be enough), SHA-256 on 32-bit words, the response
    writer, flag parsing (\<open>Parse_rendered\<close>), and \<^verbatim>\<open>append\<close> on slices that share memory.

  \<^bold>\<open>The components.\<close>
  \<^item> \<open>Pod_Index\<close>, \<open>Policy_Index\<close> (\<^verbatim>\<open>pod_index.go\<close>, \<^verbatim>\<open>policy_index.go\<close>): every operation; each refines an
    abstract map on which the last write wins; the lookup by selector is exact.
  \<^item> \<open>Api_Types\<close> (\<^verbatim>\<open>dnspolicy_types.go\<close>, \<^verbatim>\<open>zz_generated.deepcopy.go\<close>): the resource types and their deep
    copies, by value.
  \<^item> \<open>Blocklist_Cache\<close>, \<open>Cache_Properties\<close> (\<^verbatim>\<open>blocklist_cache.go\<close>): every operation. \<open>cache_inv\<close> is the
    well-formedness of a cache, \<open>coherent\<close> says that its entries are those that the indexes call for,
    and \<open>expected\<close> is the abstract specification. The lemmas show what is served, that the incremental
    recalculations equal the full one, and where the visiting order matters.
  \<^item> \<open>Policy_Reconciler\<close>, \<open>Pod_Reconciler\<close> (\<^verbatim>\<open>dnspolicy_controller.go\<close>, \<^verbatim>\<open>pod_controller.go\<close>): the two
    \<^verbatim>\<open>Reconcile\<close> methods branch by branch, with the calls and events they send as a list of effects, the
    event filter, and the status conditions. Each reconcile keeps the cache coherent.
  \<^item> \<open>Controller_System\<close>: the controller in its cluster as a step relation: edits by others, event
    filtering, work queues, reconciles that may fail, any visiting order. The invariant \<open>sys_inv\<close> holds in
    every reachable state; with empty queues the blocklist is the one that the cluster's objects ask for.
  \<^item> \<open>Convergence\<close>: the queues run empty. \<open>rank\<close> counts how often a policy can still be put back because a
    reconcile changed it; at most three reconciles per policy and one per pod remain, some reconcile is
    always possible, and at the end the list is what the cluster asked for.
  \<^item> \<open>Concurrent_Workers\<close>: the two reconcilers side by side, one step of \<open>work\<close> between two releases of a
    mutex. A worker that is alone computes the reconcile functions (\<open>policy_alone\<close>, \<open>pod_alone\<close>); the
    invariant \<open>workers_inv\<close> shows that any interleaving ends with a right cache while indexed pods keep
    their IP and stay; the workers cannot block each other; and a deletion that a policy overtakes leaves
    a stale entry.
  \<^item> \<open>Policy_Hash\<close> (\<^verbatim>\<open>hash.go\<close>), \<open>Policy_Wire\<close>: the two hashes identify what enters them, up to collisions of
    SHA-256; the spec as JSON by its struct tags, which reads back the same but for empty maps and slices.
  \<^item> \<open>Api_Server\<close> (\<^verbatim>\<open>api_server.go\<close>): the handlers on a response writer; a client decodes from the
    response exactly the served list; \<open>Start\<close> and its goroutine as a step function. This theory joins
    it to the cluster: a client reads what the cluster's objects ask for.
  \<^item> \<open>Webhook\<close> (\<^verbatim>\<open>webhook/pkg/webhook\<close>): the decision on a review, the HTTP handler with its panic, and the
    effect of the JSON patch on a document.
  \<^item> \<open>Webhook_Main\<close>, \<open>Controller_Main\<close> (\<^verbatim>\<open>webhook/cmd/webhook/main.go\<close>, \<^verbatim>\<open>controller/cmd/main.go\<close>): flags,
    set-up with every exit, TLS options, the wiring of the components, and how the programs end.
  \<^item> \<open>Controller_Program\<close> (\<^verbatim>\<open>groupversion_info.go\<close> and the \<^verbatim>\<open>init\<close> functions): the initialisation of the
    packages before \<^verbatim>\<open>main\<close>, with the builder in memory, and the controller as a whole program.

  \<^bold>\<open>Not modelled.\<close> Logging (beyond the messages of the API server), events' delivery and metrics: output
  only. Fields of Kubernetes objects that no code reads. Time-outs of the HTTP servers, which are values of
  the server records without effect. The tests under \<^verbatim>\<open>controller/test\<close>, and the YAML under \<^verbatim>\<open>config\<close>.
  Mutexes are modelled by the granularity of steps: in \<open>Controller_System\<close> a reconcile is one step, in
  \<open>Concurrent_Workers\<close> what happens under one mutex between two calls of another component.
\<close>

section \<open>From the cluster to the client\<close>

text \<open>The strings that the example serves are valid UTF-8.\<close>

lemma finish_quiescent: "quiescent finish"
  by (simp add: quiescent_def finish_eq)

lemma finish_served:
  assumes "e \<in> set (GetBlocklist (ctrl finish))"
  shows "entryIP e = ''10.0.0.5'' \<and> set (Domains e) \<subseteq> {''a.ads.com'', ''b.ads.com''}"
proof -
  let ?p = "relabelled_pod PodRunning"
  have inv: "sys_inv finish" by (rule sys_inv_reachable [OF finish_reachable])
  have p: "clPods finish web = Some ?p" "Phase ?p = PodRunning" "PodIP ?p = ''10.0.0.5''"
    by (simp_all add: finish_eq relabelled_pod_def)
  have ip: "entryIP e = PodIP ?p"
    using quiescent_served_pod [OF inv finish_quiescent assms] by (auto simp: finish_eq p(3) split: if_splits)
  have "d \<in> {''a.ads.com'', ''b.ads.com''}" if "d \<in> set (Domains e)" for d
  proof -
    have "d \<in> cluster_blocks finish ?p"
      using quiescent_blocks [OF inv finish_quiescent p(1,2), of d] p(3) assms ip that by auto
    then show ?thesis
      by (auto simp: cluster_blocks_def finish_eq live_policy_def settled_policy_def sample_policy_def split: if_splits)
  qed
  with ip p(3) show ?thesis by auto
qed



end
